theory Spec2Isabelle
  imports Complex_Main "HOL-Library.AList"
begin

section \<open>JavaScript values\<close>

text \<open>
  The event data classes of \<^verbatim>\<open>call-return.ts\<close> accept arguments of type \<^verbatim>\<open>any\<close>
  (their \<^verbatim>\<open>createFrom\<close> is fed with parsed JSON), so arguments are modelled as
  untyped JavaScript values. Numbers are rationals: the values NaN and Infinity cannot be
  produced by a JSON parser and no modelled function computes with numbers. An object is
  the list of its own enumerable properties in insertion order; a property may hold
  \<^verbatim>\<open>undefined\<close>. A function value is given by its name; the only one that the modelled
  code can meet is a method inherited from a prototype.
\<close>

datatype jsval =
    JUndefined
  | JNull
  | JBoolean bool
  | JNumber rat
  | JString string
  | JArray "jsval list"
  | JObject "(string \<times> jsval) list"
  | JFunction string

text \<open>The errors thrown by the modelled code.\<close>

datatype js_error =
    ArgumentsNotValid       \<comment> \<open>TypeError "in CallEventData/ReturnEventData: arguments not valid"\<close>
  | NotAValidOperationName  \<comment> \<open>TypeError "in CallEvent: argument 'operation' is not a valid operation name"\<close>
  | NotAValidChannelId      \<comment> \<open>TypeError of the ChannelEvent constructor\<close>
  | CannotReadProperty      \<comment> \<open>TypeError of the runtime: property read on undefined or null\<close>
  | ConfigurationNotDefined \<comment> \<open>Error "Container: Configuration is not defined"\<close>
  | InvalidTopic            \<comment> \<open>Error of CommunicationTopic.createByName\<close>

text \<open>The \<^verbatim>\<open>typeof\<close> operator; \<^verbatim>\<open>typeof null\<close> is \<^verbatim>\<open>"object"\<close>, and so is the type of an array.\<close>

fun typeof :: "jsval \<Rightarrow> string" where
  "typeof JUndefined = ''undefined''"
| "typeof JNull = ''object''"
| "typeof (JBoolean b) = ''boolean''"
| "typeof (JNumber n) = ''number''"
| "typeof (JString s) = ''string''"
| "typeof (JArray xs) = ''object''"
| "typeof (JObject kvs) = ''object''"
| "typeof (JFunction f) = ''function''"

fun isArray :: "jsval \<Rightarrow> bool" where
  "isArray (JArray xs) = True"
| "isArray v = False"

text \<open>
  Property read \<^verbatim>\<open>v.k\<close> for the property names the modelled code reads
  (\<^verbatim>\<open>code\<close>, \<^verbatim>\<open>message\<close>, \<^verbatim>\<open>parameters\<close>, \<^verbatim>\<open>filter\<close>, \<^verbatim>\<open>result\<close>, \<^verbatim>\<open>error\<close>,
  \<^verbatim>\<open>executionInfo\<close>). An object yields its own property, and \<^verbatim>\<open>undefined\<close> when it
  has none of that name: \<^verbatim>\<open>Object.prototype\<close> has no property of these names. An array
  inherits the method \<^verbatim>\<open>Array.prototype.filter\<close>, so its \<^verbatim>\<open>filter\<close> is a function;
  none of the names is an index or \<^verbatim>\<open>length\<close>, and no prototype of a primitive or of a
  function has a property of these names, so every other read yields \<^verbatim>\<open>undefined\<close>.
  Reading a property of \<^verbatim>\<open>undefined\<close> or \<^verbatim>\<open>null\<close> throws.
\<close>

fun getProp :: "jsval \<Rightarrow> string \<Rightarrow> js_error + jsval" where
  "getProp JUndefined k = Inl CannotReadProperty"
| "getProp JNull k = Inl CannotReadProperty"
| "getProp (JObject kvs) k = (case map_of kvs k of None \<Rightarrow> Inr JUndefined | Some v \<Rightarrow> Inr v)"
| "getProp (JArray xs) k = (if k = ''filter'' then Inr (JFunction ''filter'') else Inr JUndefined)"
| "getProp v k = Inr JUndefined"

text \<open>\<^verbatim>\<open>Number.isInteger\<close> and \<^verbatim>\<open>typeof v === "string"\<close>, used to state what the
  specification says of the error object of a Return event.\<close>

fun isInteger :: "jsval \<Rightarrow> bool" where
  "isInteger (JNumber q) = (of_int \<lfloor>q\<rfloor> = q)"
| "isInteger v = False"

definition isString :: "jsval \<Rightarrow> bool" where
  "isString v = (typeof v = ''string'')"

section \<open>Call event data\<close>

record CallEventData =
  c_parameters :: jsval
  c_filter :: jsval

text \<open>
  \<^verbatim>\<open>CallEventData._hasValidParameters\<close>. The function \<^verbatim>\<open>isContextFilterValid\<close> is
  imported from \<^verbatim>\<open>model/object-filter\<close>; it is the parameter \<open>isContextFilterValid\<close>
  (its truthiness).
\<close>

definition CallEventData_hasValidParameters :: "(jsval \<Rightarrow> bool) \<Rightarrow> CallEventData \<Rightarrow> bool" where
  "CallEventData_hasValidParameters isContextFilterValid d =
     ((c_parameters d = JUndefined \<or> isArray (c_parameters d) \<or> typeof (c_parameters d) = ''object'')
      \<and> isContextFilterValid (c_filter d))"

text \<open>The constructor \<^verbatim>\<open>new CallEventData(parameters, filter)\<close>.\<close>

definition CallEventData_new :: "(jsval \<Rightarrow> bool) \<Rightarrow> jsval \<Rightarrow> jsval \<Rightarrow> js_error + CallEventData" where
  "CallEventData_new isContextFilterValid parameters filter' =
     (let this = \<lparr>c_parameters = parameters, c_filter = filter'\<rparr>
      in if \<not> CallEventData_hasValidParameters isContextFilterValid this
         then Inl ArgumentsNotValid
         else Inr this)"

definition CallEventData_createFrom :: "(jsval \<Rightarrow> bool) \<Rightarrow> jsval \<Rightarrow> js_error + CallEventData" where
  "CallEventData_createFrom isContextFilterValid eventData =
     (case getProp eventData ''parameters'' of
        Inl e \<Rightarrow> Inl e
      | Inr p \<Rightarrow>
          (case getProp eventData ''filter'' of
             Inl e \<Rightarrow> Inl e
           | Inr f \<Rightarrow> CallEventData_new isContextFilterValid p f))"

definition CallEventData_toJsonObject :: "CallEventData \<Rightarrow> jsval" where
  "CallEventData_toJsonObject d =
     JObject [(''parameters'', c_parameters d), (''filter'', c_filter d)]"

text \<open>
  \<^verbatim>\<open>CallEventData.matchesFilter(context)\<close>. \<^verbatim>\<open>ObjectMatcher.matchesFilter\<close> is
  imported from \<^verbatim>\<open>model/object-matcher\<close>; it is the parameter \<open>ObjectMatcher_matchesFilter\<close>.
  An omitted context is \<open>JUndefined\<close>.
\<close>

definition matchesFilter :: "(jsval \<Rightarrow> jsval \<Rightarrow> bool) \<Rightarrow> CallEventData \<Rightarrow> jsval \<Rightarrow> bool" where
  "matchesFilter ObjectMatcher_matchesFilter d context' =
     (if c_filter d \<noteq> JUndefined \<and> context' \<noteq> JUndefined
      then ObjectMatcher_matchesFilter context' (c_filter d)
      else True)"

section \<open>Return event data\<close>

record ReturnEventData =
  r_result :: jsval
  r_error :: jsval
  r_executionInfo :: jsval

text \<open>
  \<^verbatim>\<open>ReturnEventData._hasValidParameters\<close>. The third test reads \<^verbatim>\<open>this._error.code\<close>
  and \<^verbatim>\<open>this._error.message\<close> after \<^verbatim>\<open>typeof this.error !== "object"\<close> was false; for
  \<^verbatim>\<open>null\<close> the read throws, which is the \<open>Inl\<close> result.
\<close>

definition ReturnEventData_hasValidParameters :: "ReturnEventData \<Rightarrow> js_error + bool" where
  "ReturnEventData_hasValidParameters d =
     (if r_result d = JUndefined \<and> r_error d = JUndefined then Inr False
      else if r_result d \<noteq> JUndefined \<and> r_error d \<noteq> JUndefined then Inr False
      else if r_error d \<noteq> JUndefined then
        (if typeof (r_error d) \<noteq> ''object'' then Inr False
         else (case getProp (r_error d) ''code'' of
                 Inl e \<Rightarrow> Inl e
               | Inr c \<Rightarrow>
                   if c = JUndefined then Inr False
                   else (case getProp (r_error d) ''message'' of
                           Inl e \<Rightarrow> Inl e
                         | Inr m \<Rightarrow> if m = JUndefined then Inr False else Inr True)))
      else Inr True)"

text \<open>The constructor \<^verbatim>\<open>new ReturnEventData(result, error, executionInfo)\<close>.\<close>

definition ReturnEventData_new :: "jsval \<Rightarrow> jsval \<Rightarrow> jsval \<Rightarrow> js_error + ReturnEventData" where
  "ReturnEventData_new result' error' executionInfo =
     (let this = \<lparr>r_result = result', r_error = error', r_executionInfo = executionInfo\<rparr>
      in case ReturnEventData_hasValidParameters this of
           Inl e \<Rightarrow> Inl e
         | Inr ok \<Rightarrow> if \<not> ok then Inl ArgumentsNotValid else Inr this)"

definition ReturnEventData_createFrom :: "jsval \<Rightarrow> js_error + ReturnEventData" where
  "ReturnEventData_createFrom eventData =
     (case getProp eventData ''result'' of
        Inl e \<Rightarrow> Inl e
      | Inr r \<Rightarrow>
          (case getProp eventData ''error'' of
             Inl e \<Rightarrow> Inl e
           | Inr er \<Rightarrow>
               (case getProp eventData ''executionInfo'' of
                  Inl e \<Rightarrow> Inl e
                | Inr i \<Rightarrow> ReturnEventData_new r er i)))"

definition ReturnEventData_toJsonObject :: "ReturnEventData \<Rightarrow> jsval" where
  "ReturnEventData_toJsonObject d =
     JObject [(''result'', r_result d), (''error'', r_error d),
              (''executionInfo'', r_executionInfo d)]"

text \<open>
  The shape that the third test of \<^verbatim>\<open>_hasValidParameters\<close> accepts: an object with
  own properties \<^verbatim>\<open>code\<close> and \<^verbatim>\<open>message\<close>, neither \<^verbatim>\<open>undefined\<close>.
\<close>

fun hasCodeAndMessage :: "jsval \<Rightarrow> bool" where
  "hasCodeAndMessage (JObject kvs) =
     (map_of kvs ''code'' \<noteq> None \<and> map_of kvs ''code'' \<noteq> Some JUndefined \<and>
      map_of kvs ''message'' \<noteq> None \<and> map_of kvs ''message'' \<noteq> Some JUndefined)"
| "hasCodeAndMessage v = False"

section \<open>The container and the lifecycle of its controllers\<close>

text \<open>
  \<^verbatim>\<open>enum OperatingState\<close> of the communication manager. \<^verbatim>\<open>container.ts\<close> names
  \<open>Starting\<close>, \<open>Started\<close> and \<open>Stopping\<close>; \<open>Initial\<close> and \<open>Stopped\<close> are the
  remaining states of the specification (which calls \<open>Started\<close> Online and \<open>Stopped\<close>
  Offline).
\<close>

datatype OperatingState = Initial | Starting | Started | Stopping | Stopped

text \<open>The lifecycle methods of \<^verbatim>\<open>IController\<close> that the container calls.\<close>

datatype callback =
    onInit
  | onContainerResolved
  | onCommunicationManagerStarting
  | onCommunicationManagerStopping
  | onDispose

text \<open>
  The observable effect of the container is the sequence of calls it makes. A controller
  object is identified by the number it got when it was created with \<^verbatim>\<open>new\<close>.
  Controller methods are opaque: they return normally and do not call back into the
  container, that is, no lifecycle method registers a controller or shuts the container
  down. (\<^verbatim>\<open>Map.forEach\<close> visits an entry that is added while it runs, so a controller
  registered from inside a lifecycle method of another one is outside this model.)
\<close>

datatype call =
    Controller_call nat callback
  | ComManager_start
  | ComManager_onDispose

text \<open>
  The fields of \<^verbatim>\<open>Container\<close> together with what the container can observe of its
  environment: \<open>controllers\<close> is \<^verbatim>\<open>_controllers\<close>, a \<^verbatim>\<open>Map\<close> in insertion order from
  the controller name to the pair of instance and class, \<open>None\<close> once it is set to
  \<^verbatim>\<open>undefined\<close>; \<open>subscription\<close> tells whether \<^verbatim>\<open>_operatingStateSubscription\<close> is
  active; \<open>operatingState\<close> is the current state of \<^verbatim>\<open>_comManager\<close>; \<open>instances\<close>
  counts the controller objects created so far; \<open>calls\<close> is the log.
\<close>

record Container =
  controllers :: "(string \<times> nat \<times> string) list option"
  isShutdown :: bool
  subscription :: bool
  operatingState :: OperatingState
  instances :: nat
  calls :: "call list"

record Configuration =
  shouldAutoStart :: bool   \<comment> \<open>\<^verbatim>\<open>config.communication.shouldAutoStart\<close>\<close>

text \<open>\<^verbatim>\<open>Container._dispatchOperatingState(state, ctrl)\<close>: the calls it makes.\<close>

fun dispatchOperatingState :: "OperatingState \<Rightarrow> nat \<Rightarrow> call list" where
  "dispatchOperatingState Starting ctrl = [Controller_call ctrl onCommunicationManagerStarting]"
| "dispatchOperatingState Stopping ctrl = [Controller_call ctrl onCommunicationManagerStopping]"
| "dispatchOperatingState s ctrl = []"

text \<open>
  The observer that \<^verbatim>\<open>_resolveComponents\<close> subscribes:
  \<^verbatim>\<open>state => this._controllers && this._controllers.forEach(ctrl => this._dispatchOperatingState(state, ctrl[0]))\<close>.
\<close>

definition notify :: "OperatingState \<Rightarrow> Container \<Rightarrow> Container" where
  "notify s w =
     (if subscription w then
        (case controllers w of
           None \<Rightarrow> w
         | Some m \<Rightarrow> w\<lparr>calls := calls w @ concat (map (\<lambda>(name, ctrl, ty). dispatchOperatingState s ctrl) m)\<rparr>)
      else w)"

text \<open>
  Modelled from the spec: the communication manager, whose class is not part of the
  sources at hand. Section 4.6 gives its operating-state machine
  \<^verbatim>\<open>Initial -> Starting -> Online -> Stopping -> Offline -> (Starting ...)\<close> with the
  transitions: start in Initial or Offline enters Starting; the broker's connect callback
  enters Online; a broker disconnect while Online enters Offline without Stopping; stop in
  Starting or Online enters Stopping and then Offline; shutdown is stop made irreversible.
  Observers of the operating state are called synchronously on every change, and a new
  observer is called at once with the current state (\<^verbatim>\<open>registerController\<close> subscribes
  and unsubscribes in one statement to read it).
\<close>

fun comManager_next :: "OperatingState \<Rightarrow> OperatingState \<Rightarrow> bool" where
  "comManager_next Initial Starting = True"
| "comManager_next Stopped Starting = True"
| "comManager_next Starting Started = True"
| "comManager_next Started Stopped = True"
| "comManager_next Starting Stopping = True"
| "comManager_next Started Stopping = True"
| "comManager_next Stopping Stopped = True"
| "comManager_next s s' = False"

text \<open>
  Modelled from the spec: the manager enters an operating state and its observers are
  notified of the change.
\<close>

definition comManager_enter :: "OperatingState \<Rightarrow> Container \<Rightarrow> Container" where
  "comManager_enter s w = notify s (w\<lparr>operatingState := s\<rparr>)"

text \<open>
  Modelled from the spec: \<^verbatim>\<open>CommunicationManager.start\<close>, "start in Initial or Offline:
  transition to Starting".
\<close>

definition comManager_start :: "Container \<Rightarrow> Container" where
  "comManager_start w =
     (if operatingState w = Initial \<or> operatingState w = Stopped
      then comManager_enter Starting w else w)"

text \<open>
  Modelled from the spec: \<^verbatim>\<open>CommunicationManager.onDispose\<close>, the shutdown of the
  manager, "stop then irreversible", where "stop in Starting or Online" enters Stopping
  and then Offline.
\<close>

definition comManager_onDispose :: "Container \<Rightarrow> Container" where
  "comManager_onDispose w =
     (if operatingState w = Starting \<or> operatingState w = Started
      then comManager_enter Stopped (comManager_enter Stopping w) else w)"

text \<open>
  \<^verbatim>\<open>Container._resolveController\<close>: the class is \<open>None\<close> when
  \<^verbatim>\<open>components.controllers[controllerName]\<close> is undefined; the empty name is falsy. The
  result is the new container state and the instance, \<open>None\<close> for \<^verbatim>\<open>undefined\<close>.
  \<^verbatim>\<open>Map.set\<close> keeps the position of a key that is present and appends a new key,
  as \<open>AList.update\<close> does. The map is present at every call: \<^verbatim>\<open>_resolveComponents\<close>
  runs on a new container and \<^verbatim>\<open>registerController\<close> returns early after shutdown.
\<close>

definition resolveController :: "string \<Rightarrow> string option \<Rightarrow> Container \<Rightarrow> Container \<times> nat option" where
  "resolveController controllerName controllerType w =
     (case controllerType of
        Some ty \<Rightarrow>
          if controllerName \<noteq> [] then
            (let ctrl = instances w
             in (w\<lparr>instances := Suc (instances w),
                    calls := calls w @ [Controller_call ctrl onInit],
                    controllers := map_option (AList.update controllerName (ctrl, ty)) (controllers w)\<rparr>,
                 Some ctrl))
          else (w, None)
      | None \<Rightarrow> (w, None))"

text \<open>The loop over \<^verbatim>\<open>Object.keys(components.controllers)\<close>, the keys in enumeration order.\<close>

fun resolveControllers :: "(string \<times> string option) list \<Rightarrow> Container \<Rightarrow> Container" where
  "resolveControllers [] w = w"
| "resolveControllers ((controllerName, controllerType) # rest) w =
     resolveControllers rest (fst (resolveController controllerName controllerType w))"

text \<open>\<^verbatim>\<open>this._controllers.forEach(ctrl => ctrl[0].cb())\<close> for a lifecycle method \<open>cb\<close>.\<close>

definition forEachController :: "callback \<Rightarrow> Container \<Rightarrow> Container" where
  "forEachController cb w =
     (case controllers w of
        None \<Rightarrow> w
      | Some m \<Rightarrow> w\<lparr>calls := calls w @ map (\<lambda>(name, ctrl, ty). Controller_call ctrl cb) m\<rparr>)"

text \<open>
  \<^verbatim>\<open>Container.resolve(components, configuration)\<close> on a new container, that is
  \<^verbatim>\<open>_resolveComponents\<close>: \<open>components\<close> is the list of entries of
  \<^verbatim>\<open>components.controllers\<close> (empty when absent), \<open>config\<close> is \<open>None\<close> when the
  configuration is falsy. Subscribing to the operating state calls the observer with the
  current state.
\<close>

definition new_Container :: Container where
  "new_Container =
     \<lparr>controllers = Some [], isShutdown = False, subscription = False,
      operatingState = Initial, instances = 0, calls = []\<rparr>"

definition Container_resolve :: "(string \<times> string option) list \<Rightarrow> Configuration option \<Rightarrow> js_error + Container" where
  "Container_resolve components config =
     (case config of
        None \<Rightarrow> Inl ConfigurationNotDefined
      | Some cfg \<Rightarrow>
          (let w1 = resolveControllers components new_Container;
               w2 = forEachController onContainerResolved w1;
               w3 = notify (operatingState w2) (w2\<lparr>subscription := True\<rparr>)
           in if shouldAutoStart cfg
              then Inr (comManager_start (w3\<lparr>calls := calls w3 @ [ComManager_start]\<rparr>))
              else Inr w3))"

text \<open>\<^verbatim>\<open>Container.registerController(controllerName, controllerType, config)\<close>.\<close>

definition registerController :: "string \<Rightarrow> string option \<Rightarrow> Container \<Rightarrow> Container \<times> nat option" where
  "registerController controllerName controllerType w =
     (if isShutdown w then (w, None)
      else
        (case resolveController controllerName controllerType w of
           (w1, None) \<Rightarrow> (w1, None)
         | (w1, Some ctrl) \<Rightarrow>
             (let w2 = w1\<lparr>calls := calls w1 @ [Controller_call ctrl onContainerResolved]\<rparr>;
                  opState = operatingState w2
              in if opState = Started \<or> opState = Starting
                 then (w2\<lparr>calls := calls w2 @ dispatchOperatingState Starting ctrl\<rparr>, Some ctrl)
                 else (w2, Some ctrl))))"

text \<open>\<^verbatim>\<open>Container._releaseComponents\<close> and \<^verbatim>\<open>Container.shutdown\<close>.\<close>

definition releaseComponents :: "Container \<Rightarrow> Container" where
  "releaseComponents w =
     (let w1 = comManager_onDispose (w\<lparr>calls := calls w @ [ComManager_onDispose]\<rparr>);
          w2 = forEachController onDispose w1
      in w2\<lparr>subscription := False, controllers := None\<rparr>)"

definition shutdown :: "Container \<Rightarrow> Container" where
  "shutdown w = (if isShutdown w then w else releaseComponents (w\<lparr>isShutdown := True\<rparr>))"

text \<open>
  \<^verbatim>\<open>Container.getController(controllerName)\<close>:
  \<^verbatim>\<open>this._controllers && this._controllers.get(controllerName)[0]\<close>. The result
  \<open>Inr None\<close> is \<^verbatim>\<open>undefined\<close>; indexing the \<^verbatim>\<open>undefined\<close> that \<^verbatim>\<open>Map.get\<close> returns
  for an absent key throws a TypeError.
\<close>

definition getController :: "Container \<Rightarrow> string \<Rightarrow> js_error + nat option" where
  "getController w controllerName =
     (case controllers w of
        None \<Rightarrow> Inr None
      | Some m \<Rightarrow>
          (case map_of m controllerName of
             None \<Rightarrow> Inl CannotReadProperty
           | Some (ctrl, ty) \<Rightarrow> Inr (Some ctrl)))"

text \<open>
  What can happen to a resolved container: the application registers a controller, shuts
  the container down, or the communication manager changes its operating state (by a
  transition of its state machine, while it is not disposed).
\<close>

datatype event =
    RegisterController string "string option"
  | Shutdown
  | ComManagerEnters OperatingState

fun step :: "Container \<Rightarrow> event \<Rightarrow> Container option" where
  "step w (RegisterController controllerName controllerType) =
     Some (fst (registerController controllerName controllerType w))"
| "step w Shutdown = Some (shutdown w)"
| "step w (ComManagerEnters s) =
     (if \<not> isShutdown w \<and> comManager_next (operatingState w) s
      then Some (comManager_enter s w) else None)"

fun run :: "Container \<Rightarrow> event list \<Rightarrow> Container option" where
  "run w [] = Some w"
| "run w (e # es) = (case step w e of None \<Rightarrow> None | Some w' \<Rightarrow> run w' es)"

text \<open>The lifecycle methods called on one controller object, in order.\<close>

fun callbacks_of :: "nat \<Rightarrow> call list \<Rightarrow> callback list" where
  "callbacks_of c [] = []"
| "callbacks_of c (Controller_call c' cb # rest) =
     (if c' = c then cb # callbacks_of c rest else callbacks_of c rest)"
| "callbacks_of c (x # rest) = callbacks_of c rest"



text \<open>
  The order the container keeps, as an automaton over the lifecycle methods: \<open>onInit\<close>,
  then \<open>onContainerResolved\<close>; then \<open>onCommunicationManagerStarting\<close>, which takes the
  controller to the phase \<open>Running\<close>, and \<open>onCommunicationManagerStopping\<close>, which is
  possible in the phase \<open>Running\<close> only and takes it back to \<open>Resolved\<close>, so that every
  \<open>onCommunicationManagerStopping\<close> comes directly after an
  \<open>onCommunicationManagerStarting\<close>; then \<open>onDispose\<close> and nothing after it. In the
  phase \<open>Running\<close> a second \<open>onCommunicationManagerStarting\<close> and \<open>onDispose\<close> are
  possible: the manager of the specification goes Offline without Stopping when the broker
  disconnects, and can then be started again or disposed.
\<close>

datatype life_phase = Created | Inited | Resolved | Running | Disposed

fun life_step :: "life_phase \<Rightarrow> callback \<Rightarrow> life_phase option" where
  "life_step Created onInit = Some Inited"
| "life_step Inited onContainerResolved = Some Resolved"
| "life_step Resolved onCommunicationManagerStarting = Some Running"
| "life_step Running onCommunicationManagerStarting = Some Running"
| "life_step Running onCommunicationManagerStopping = Some Resolved"
| "life_step Resolved onDispose = Some Disposed"
| "life_step Running onDispose = Some Disposed"
| "life_step p cb = None"

fun life_run :: "life_phase \<Rightarrow> callback list \<Rightarrow> life_phase option" where
  "life_run p [] = Some p"
| "life_run p (cb # cbs) = (case life_step p cb of None \<Rightarrow> None | Some p' \<Rightarrow> life_run p' cbs)"

section \<open>Topic names\<close>

text \<open>
  Modelled from the spec: \<^verbatim>\<open>CommunicationTopic\<close> (module \<^verbatim>\<open>communication-topic\<close>),
  of which the sources at hand hold only the callers and the tests. The definitions of
  this section follow section 4.1 of the specification; where the test suite pins a
  detail (the empty first and last level of a topic, the expected field values), the
  test suite is followed.
\<close>

text \<open>
  Modelled from the spec: the characters that an operation name, a channel identifier or
  an object-type filter may not contain are NUL, \<^verbatim>\<open>#\<close>, \<^verbatim>\<open>+\<close> and \<^verbatim>\<open>/\<close>.
\<close>

definition unsafe_chars :: "char list" where
  "unsafe_chars = [CHR 0x00, CHR ''#'', CHR ''+'', CHR ''/'']"

text \<open>Modelled from the spec: a character that such a name may contain.\<close>

definition is_safe_char :: "char \<Rightarrow> bool" where
  "is_safe_char c = (c \<notin> set unsafe_chars)"

text \<open>
  Modelled from the spec: \<^verbatim>\<open>CommunicationTopic.isValidEventTypeFilter\<close>, "non-empty; may
  not contain NUL, #, +, /".
\<close>

definition isValidEventTypeFilter :: "string \<Rightarrow> bool" where
  "isValidEventTypeFilter s = (s \<noteq> [] \<and> list_all is_safe_char s)"

text \<open>
  Modelled from the spec: \<^verbatim>\<open>CommunicationEventType\<close>, the closed set of event kinds.
\<close>

datatype CommunicationEventType =
    Raw | Advertise | Deadvertise | Channel | Discover | Resolve | Query | Retrieve
  | Update | Complete | Associate | IoValue | Call | Return

text \<open>Modelled from the spec: the name of an event kind in a topic.\<close>

fun eventName :: "CommunicationEventType \<Rightarrow> string" where
  "eventName Raw = ''Raw''"
| "eventName Advertise = ''Advertise''"
| "eventName Deadvertise = ''Deadvertise''"
| "eventName Channel = ''Channel''"
| "eventName Discover = ''Discover''"
| "eventName Resolve = ''Resolve''"
| "eventName Query = ''Query''"
| "eventName Retrieve = ''Retrieve''"
| "eventName Update = ''Update''"
| "eventName Complete = ''Complete''"
| "eventName Associate = ''Associate''"
| "eventName IoValue = ''IoValue''"
| "eventName Call = ''Call''"
| "eventName Return = ''Return''"

text \<open>Modelled from the spec: the event kinds, for decoding a name.\<close>

definition allEventTypes :: "CommunicationEventType list" where
  "allEventTypes =
     [Raw, Advertise, Deadvertise, Channel, Discover, Resolve, Query, Retrieve,
      Update, Complete, Associate, IoValue, Call, Return]"

text \<open>Modelled from the spec: the event kind with a given name, if there is one.\<close>

definition eventOfName :: "string \<Rightarrow> CommunicationEventType option" where
  "eventOfName s = map_of (map (\<lambda>e. (eventName e, e)) allEventTypes) s"

text \<open>
  Modelled from the spec: \<^verbatim>\<open>CommunicationTopic.getEventTypeName\<close>, the event kind name,
  optionally suffixed by a colon and the filter.
\<close>

definition getEventTypeName :: "CommunicationEventType \<Rightarrow> string option \<Rightarrow> string" where
  "getEventTypeName eventType eventTypeFilter =
     (case eventTypeFilter of
        None \<Rightarrow> eventName eventType
      | Some f \<Rightarrow> eventName eventType @ '':'' @ f)"

text \<open>
  Modelled from the spec: the version level of a topic and the counter of a message token
  are integers, written in decimal. The digit \<open>d\<close> is the character with code 48 + d.
\<close>

definition digit_char :: "nat \<Rightarrow> char" where
  "digit_char d = char_of (48 + d)"

text \<open>Modelled from the spec: the decimal numeral of a number (\<^verbatim>\<open>Number.toString\<close>).\<close>

function show_nat :: "nat \<Rightarrow> string" where
  "show_nat n = (if n < 10 then [digit_char n] else show_nat (n div 10) @ [digit_char (n mod 10)])"
  by pat_completeness auto
termination
  by (relation "measure id") auto

text \<open>Modelled from the spec: a decimal digit.\<close>

definition is_digit :: "char \<Rightarrow> bool" where
  "is_digit c = (48 \<le> (of_char c :: nat) \<and> (of_char c :: nat) \<le> 57)"

text \<open>
  Modelled from the spec: reading the version level; a level that is not a decimal numeral
  makes the topic ill-structured.
\<close>

definition parse_nat :: "string \<Rightarrow> nat option" where
  "parse_nat s =
     (if s \<noteq> [] \<and> list_all is_digit s
      then Some (foldl (\<lambda>a c. 10 * a + (of_char c - 48)) 0 s)
      else None)"

text \<open>
  Modelled from the spec: readable mode. An identifier is prefixed by the sanitized name
  of its object and an underscore; sanitization replaces every character among NUL,
  \<^verbatim>\<open>#\<close>, \<^verbatim>\<open>+\<close>, \<^verbatim>\<open>/\<close> by an underscore.
\<close>

definition sanitize :: "string \<Rightarrow> string" where
  "sanitize s = map (\<lambda>c. if is_safe_char c then c else CHR ''_'') s"

text \<open>
  Modelled from the spec: the attributes of a \<^verbatim>\<open>User\<close> object that a topic depends on, its
  human-readable name and its identifier.
\<close>

record User =
  u_name :: string
  u_objectId :: string

text \<open>
  Modelled from the spec: the level of an object in a topic, its identifier, in readable
  mode prefixed by the sanitized name and an underscore.
\<close>

definition getTopicLevelId :: "User \<Rightarrow> bool \<Rightarrow> string" where
  "getTopicLevelId u isReadable =
     (if isReadable then sanitize (u_name u) @ ''_'' @ u_objectId u else u_objectId u)"

text \<open>
  Modelled from the spec: the fields of a \<^verbatim>\<open>CommunicationTopic\<close>, those that the test
  suite reads.
\<close>

record CommunicationTopic =
  associatedUserId :: "string option"
  sourceObjectId :: string
  eventType :: CommunicationEventType
  eventTypeName :: string
  messageToken :: string
  version :: nat

text \<open>
  Modelled from the spec: the token counter convention. The message token of a topic is in
  canonical form, the sender's identifier, an underscore and a counter; "a fresh sender
  uses counter 0 for its first event when an associated user is present, else 1.
  Subsequent tokens increment." The counters are the state \<open>counters\<close>, one for each
  sender that has built a topic; the token passed to \<^verbatim>\<open>createByLevels\<close> is not stored
  (the test suite passes a UUID and reads back the canonical token).
\<close>

definition nextCounter :: "(string \<rightharpoonup> nat) \<Rightarrow> User option \<Rightarrow> string \<Rightarrow> nat" where
  "nextCounter counters associatedUser sourceId =
     (case counters sourceId of
        Some n \<Rightarrow> n
      | None \<Rightarrow> (if associatedUser = None then 1 else 0))"

text \<open>
  Modelled from the spec: \<^verbatim>\<open>CommunicationTopic.createByLevels(associatedUser, source,
  eventType, eventTypeFilter, messageToken, protocolVersion, isReadable)\<close> with the sender
  given by its identifier, as in the test suite. The result is the topic and the new
  counters.
\<close>

definition createByLevels ::
  "(string \<rightharpoonup> nat) \<Rightarrow> User option \<Rightarrow> string \<Rightarrow> CommunicationEventType \<Rightarrow> string option \<Rightarrow>
   string \<Rightarrow> nat \<Rightarrow> bool \<Rightarrow> CommunicationTopic \<times> (string \<rightharpoonup> nat)" where
  "createByLevels counters associatedUser sourceId evType eventTypeFilter token protocolVersion isReadable =
     (let n = nextCounter counters associatedUser sourceId
      in (\<lparr>associatedUserId = map_option (\<lambda>u. getTopicLevelId u isReadable) associatedUser,
           sourceObjectId = sourceId,
           eventType = evType,
           eventTypeName = getEventTypeName evType eventTypeFilter,
           messageToken = sourceId @ ''_'' @ show_nat n,
           version = protocolVersion\<rparr>,
          counters(sourceId \<mapsto> Suc n)))"

text \<open>
  Modelled from the spec: the wire format, the levels protocol name, version, event type
  name, associated user (a hyphen when absent), source and message token, separated by
  slashes; as the test suite shows for topic filters, the string starts and ends with a
  slash.
\<close>

definition PROTOCOL_NAME :: string where
  "PROTOCOL_NAME = ''coaty''"

text \<open>Modelled from the spec: the level of an absent associated user, a hyphen.\<close>

definition EMPTY_ASSOCIATED_USER_ID :: string where
  "EMPTY_ASSOCIATED_USER_ID = ''-''"

text \<open>
  Modelled from the spec: \<^verbatim>\<open>CommunicationTopic.getTopicName\<close>, the levels joined by
  slashes, with a slash in front and at the end.
\<close>

definition getTopicName :: "CommunicationTopic \<Rightarrow> string" where
  "getTopicName t =
     ''/'' @ PROTOCOL_NAME
     @ ''/'' @ show_nat (version t)
     @ ''/'' @ eventTypeName t
     @ ''/'' @ (case associatedUserId t of None \<Rightarrow> EMPTY_ASSOCIATED_USER_ID | Some u \<Rightarrow> u)
     @ ''/'' @ sourceObjectId t
     @ ''/'' @ messageToken t
     @ ''/''"

text \<open>\<^verbatim>\<open>String.prototype.split\<close> with a one-character separator.\<close>

fun split_on :: "char \<Rightarrow> string \<Rightarrow> string list" where
  "split_on sep [] = [[]]"
| "split_on sep (c # cs) =
     (if c = sep then [] # split_on sep cs
      else (case split_on sep cs of
              [] \<Rightarrow> [[c]]
            | w # ws \<Rightarrow> (c # w) # ws))"

text \<open>
  Modelled from the spec: a character that a topic name may contain, neither NUL nor a
  wildcard.
\<close>

definition is_topic_char :: "char \<Rightarrow> bool" where
  "is_topic_char c = (c \<notin> set [CHR 0x00, CHR ''#'', CHR ''+''])"

text \<open>
  Modelled from the spec: \<^verbatim>\<open>CommunicationTopic.createByName\<close>. "A decode of an
  ill-structured topic fails with InvalidTopic"; it rejects the empty string, missing
  levels, a wrong protocol name, wildcards and an embedded NUL. The event kind is the
  part of the event type name before the first colon.
\<close>

definition createByName :: "string \<Rightarrow> js_error + CommunicationTopic" where
  "createByName topicName =
     (case split_on CHR ''/'' topicName of
        [start, protocolName, v, evtName, userId, sourceId, token, end'] \<Rightarrow>
          if start = [] \<and> end' = [] \<and> protocolName = PROTOCOL_NAME \<and> evtName \<noteq> [] \<and>
             userId \<noteq> [] \<and> sourceId \<noteq> [] \<and> token \<noteq> [] \<and> list_all is_topic_char topicName
          then
            (case parse_nat v of
               None \<Rightarrow> Inl InvalidTopic
             | Some n \<Rightarrow>
                 (case eventOfName (takeWhile (\<lambda>c. c \<noteq> CHR '':'') evtName) of
                    None \<Rightarrow> Inl InvalidTopic
                  | Some evType \<Rightarrow>
                      Inr \<lparr>associatedUserId =
                             (if userId = EMPTY_ASSOCIATED_USER_ID then None else Some userId),
                           sourceObjectId = sourceId,
                           eventType = evType,
                           eventTypeName = evtName,
                           messageToken = token,
                           version = n\<rparr>))
          else Inl InvalidTopic
      | _ \<Rightarrow> Inl InvalidTopic)"

section \<open>Call and Channel events\<close>

text \<open>
  The constructor \<^verbatim>\<open>new CallEvent(eventSource, operation, eventData)\<close>. The base class
  \<^verbatim>\<open>CommunicationEvent\<close> is not part of the sources at hand; the specification
  describes it as the envelope that carries the event source and the data, which is what
  \<^verbatim>\<open>super(eventSource, eventData)\<close> stores here.
\<close>

record CallEvent =
  ce_eventSource :: jsval
  ce_eventData :: CallEventData
  ce_operation :: string

definition CallEvent_new :: "jsval \<Rightarrow> string \<Rightarrow> CallEventData \<Rightarrow> js_error + CallEvent" where
  "CallEvent_new eventSource operation eventData =
     (if \<not> isValidEventTypeFilter operation then Inl NotAValidOperationName
      else Inr \<lparr>ce_eventSource = eventSource, ce_eventData = eventData, ce_operation = operation\<rparr>)"

text \<open>
  Modelled from the spec: the constructor of \<^verbatim>\<open>ChannelEvent\<close>, whose class is not part
  of the sources at hand (the test suite calls \<^verbatim>\<open>ChannelEvent.withObject\<close>). A Channel
  event carries "one or more Objects plus a channel identifier (validated as in 4.1)";
  the event data is taken as already constructed.
\<close>

record ChannelEvent =
  ch_eventSource :: jsval
  ch_eventData :: jsval
  ch_channelId :: string

definition ChannelEvent_new :: "jsval \<Rightarrow> string \<Rightarrow> jsval \<Rightarrow> js_error + ChannelEvent" where
  "ChannelEvent_new eventSource channelId eventData =
     (if \<not> isValidEventTypeFilter channelId then Inl NotAValidChannelId
      else Inr \<lparr>ch_eventSource = eventSource, ch_eventData = eventData, ch_channelId = channelId\<rparr>)"

declare show_nat.simps [simp del]

text \<open>Modelled from the spec: a hexadecimal digit of a UUID.\<close>

definition is_hex :: "char \<Rightarrow> bool" where
  "is_hex c = (is_digit c \<or> c \<in> set ''abcdefABCDEF'')"

text \<open>
  Modelled from the spec: the canonical shape of a UUID, 36 characters, hexadecimal digits
  in the groups 8-4-4-4-12 separated by hyphens.
\<close>

definition isUuid :: "string \<Rightarrow> bool" where
  "isUuid s =
     (length s = 36 \<and>
      list_all (\<lambda>(i, c). if i = 8 \<or> i = 13 \<or> i = 18 \<or> i = 23 then c = CHR ''-'' else is_hex c)
        (enumerate 0 s))"

text \<open>
  Modelled from the spec: \<^verbatim>\<open>CommunicationTopic.uuidFromLevel\<close>, which "recovers the
  trailing UUID by matching the last 36 characters against the canonical UUID shape";
  \<open>None\<close> when they do not match.
\<close>

definition uuidFromLevel :: "string \<Rightarrow> string option" where
  "uuidFromLevel level =
     (let tail = drop (length level - 36) level
      in if isUuid tail then Some tail else None)"

section \<open>Runs of a container\<close>

text \<open>A container is resolved and then meets a sequence of events.\<close>

definition resolve_run ::
  "(string \<times> string option) list \<Rightarrow> Configuration option \<Rightarrow> event list \<Rightarrow> Container option" where
  "resolve_run components config evs =
     (case Container_resolve components config of
        Inl e \<Rightarrow> None
      | Inr w \<Rightarrow> run w evs)"

text \<open>The controller objects held in \<^verbatim>\<open>_controllers\<close>, and how far a controller has come.\<close>

definition ctrl_ids :: "(string \<times> nat \<times> string) list \<Rightarrow> nat list" where
  "ctrl_ids m = map (\<lambda>(name, ctrl, ty). ctrl) m"

definition phase_of :: "nat \<Rightarrow> Container \<Rightarrow> life_phase option" where
  "phase_of c w = life_run Created (callbacks_of c (calls w))"

text \<open>The lifecycle methods that a change to the operating state \<open>s\<close> makes the container call.\<close>

fun notification :: "OperatingState \<Rightarrow> callback list" where
  "notification Starting = [onCommunicationManagerStarting]"
| "notification Stopping = [onCommunicationManagerStopping]"
| "notification s = []"

text \<open>
  The phases that the registered controllers can be in while the manager is in a given
  operating state: they are running exactly while the manager is starting or started; when
  the manager is stopped (Offline), those that saw it stop are resolved and those that saw
  the broker disconnect are still running.
\<close>

fun phases_in :: "OperatingState \<Rightarrow> life_phase set" where
  "phases_in Initial = {Resolved}"
| "phases_in Starting = {Running}"
| "phases_in Started = {Running}"
| "phases_in Stopping = {Resolved}"
| "phases_in Stopped = {Resolved, Running}"

text \<open>
  The invariant of the controllers of a container: the controllers in the map are distinct
  objects that were created and are in one of the phases \<open>P\<close>; an object not yet created
  has received no call; every object has received its calls in lifecycle order.
\<close>

definition ctrl_inv :: "life_phase set \<Rightarrow> Container \<Rightarrow> bool" where
  "ctrl_inv P w =
     ((\<forall>m. controllers w = Some m \<longrightarrow>
         distinct (ctrl_ids m) \<and>
         (\<forall>c \<in> set (ctrl_ids m). c < instances w \<and> (\<exists>p \<in> P. phase_of c w = Some p))) \<and>
      (\<forall>c. instances w \<le> c \<longrightarrow> callbacks_of c (calls w) = []) \<and>
      (\<forall>c. phase_of c w \<noteq> None))"

text \<open>
  The invariant of a container between two operations: the map of controllers is present
  exactly until shutdown, and so is the subscription to the operating state; the
  controllers in the map are in a phase that fits the operating state of the manager.
\<close>

definition container_inv :: "Container \<Rightarrow> bool" where
  "container_inv w =
     ((isShutdown w \<longleftrightarrow> controllers w = None) \<and>
      (subscription w \<longleftrightarrow> \<not> isShutdown w) \<and>
      ctrl_inv (phases_in (operatingState w)) w)"

text \<open>
  A run of the test suite's first container: two controllers are resolved with automatic
  start, the manager gets connected, and a third controller is registered.
\<close>

definition example_components :: "(string \<times> string option) list" where
  "example_components =
     [(''MockDeviceController'', Some ''MockDeviceController''),
      (''MockOperationsCallController'', Some ''MockOperationsCallController'')]"

definition example_events :: "event list" where
  "example_events =
     [ComManagerEnters Started,
      RegisterController ''MockObjectController'' (Some ''MockObjectController'')]"

definition example_container :: Container where
  "example_container =
     \<lparr>controllers =
        Some [(''MockDeviceController'', 0, ''MockDeviceController''),
              (''MockOperationsCallController'', 1, ''MockOperationsCallController''),
              (''MockObjectController'', 2, ''MockObjectController'')],
      isShutdown = False, subscription = True, operatingState = Started, instances = 3,
      calls =
        [Controller_call 0 onInit, Controller_call 1 onInit,
         Controller_call 0 onContainerResolved, Controller_call 1 onContainerResolved,
         ComManager_start,
         Controller_call 0 onCommunicationManagerStarting,
         Controller_call 1 onCommunicationManagerStarting,
         Controller_call 2 onInit, Controller_call 2 onContainerResolved,
         Controller_call 2 onCommunicationManagerStarting]\<rparr>"


text \<open>The values of the test suite for topics: the sender, the associated user, the token.\<close>

definition test_senderId :: string where
  "test_senderId = ''3d34eb53-2536-4134-b0cd-8c406b94bb80''"

definition test_associatedUser :: User where
  "test_associatedUser =
     \<lparr>u_name = ''User+/#HHO'' @ [CHR 0x00],
      u_objectId = ''0ea293e5-f8be-4a5d-886b-0e231e8234b2''\<rparr>"

definition test_messageToken :: string where
  "test_messageToken = ''7d6dd7e6-4f3d-4cdf-92f5-3d926a55663d''"

section \<open>Properties of the event data\<close>

lemmas ReturnEventData_defs =
  ReturnEventData_new_def ReturnEventData_hasValidParameters_def
  ReturnEventData_createFrom_def ReturnEventData_toJsonObject_def

lemmas CallEventData_defs =
  CallEventData_new_def CallEventData_hasValidParameters_def
  CallEventData_createFrom_def CallEventData_toJsonObject_def

text \<open>
  Claim C2. Constructing \<^verbatim>\<open>ReturnEventData\<close> succeeds only if exactly one of
  \<^verbatim>\<open>result\<close> and \<^verbatim>\<open>error\<close> is defined (not \<^verbatim>\<open>undefined\<close>); with both given, and with
  neither given, the constructor throws the TypeError "arguments not valid".
\<close>

theorem ReturnEventData_exactly_one:
  "(ReturnEventData_new res err info = Inr d \<longrightarrow> (res = JUndefined) \<noteq> (err = JUndefined))
   \<and> (res \<noteq> JUndefined \<and> err \<noteq> JUndefined \<longrightarrow>
        ReturnEventData_new res err info = Inl ArgumentsNotValid)
   \<and> ReturnEventData_new JUndefined JUndefined info = Inl ArgumentsNotValid"
  by (auto simp: ReturnEventData_defs Let_def split: sum.splits if_splits)

theorem ReturnEventData_exactly_one_witness:
  "ReturnEventData_new (JNumber 85) JUndefined JUndefined
     = Inr \<lparr>r_result = JNumber 85, r_error = JUndefined, r_executionInfo = JUndefined\<rparr>
   \<and> (JNumber 85 = JUndefined) \<noteq> (JUndefined = JUndefined)
   \<and> JNumber 85 \<noteq> JUndefined \<and> JObject [] \<noteq> JUndefined
   \<and> ReturnEventData_new (JNumber 85) (JObject []) JUndefined = Inl ArgumentsNotValid"
  using ReturnEventData_exactly_one [of "JNumber 85" JUndefined JUndefined
      "\<lparr>r_result = JNumber 85, r_error = JUndefined, r_executionInfo = JUndefined\<rparr>"]
    ReturnEventData_exactly_one [of "JNumber 85" "JObject []" JUndefined]
  by (simp add: ReturnEventData_defs)

text \<open>
  Claim C3, as the specification states it, fails: the constructor accepts an error
  object whose \<^verbatim>\<open>code\<close> is the number 1.5, and \<^verbatim>\<open>createFrom\<close> accepts one whose
  \<^verbatim>\<open>code\<close> is the string "abc" and whose \<^verbatim>\<open>message\<close> is the number 42.
\<close>

theorem ReturnEventData_error_untyped_counterexample:
  "ReturnEventData_new JUndefined
      (JObject [(''code'', JNumber (3 / 2)), (''message'', JString ''Invalid params'')]) JUndefined
     = Inr \<lparr>r_result = JUndefined,
            r_error = JObject [(''code'', JNumber (3 / 2)), (''message'', JString ''Invalid params'')],
            r_executionInfo = JUndefined\<rparr>
   \<and> \<not> isInteger (JNumber (3 / 2))
   \<and> ReturnEventData_createFrom
        (JObject [(''error'', JObject [(''code'', JString ''abc''), (''message'', JNumber 42)])])
     = Inr \<lparr>r_result = JUndefined,
            r_error = JObject [(''code'', JString ''abc''), (''message'', JNumber 42)],
            r_executionInfo = JUndefined\<rparr>
   \<and> \<not> isInteger (JString ''abc'') \<and> \<not> isString (JNumber 42)"
proof -
  have "\<lfloor>(3::rat) / 2\<rfloor> = 1"
    by (rule floor_unique) simp_all
  then have "\<not> isInteger (JNumber (3 / 2))"
    by simp
  then show ?thesis
    by (simp add: ReturnEventData_defs isString_def)
qed

text \<open>
  Claim C3, amended. Whenever constructing \<^verbatim>\<open>ReturnEventData\<close> with an error succeeds,
  the error is an object that has a \<^verbatim>\<open>code\<close> and a \<^verbatim>\<open>message\<close> property, neither of
  them \<^verbatim>\<open>undefined\<close>; every object of this shape is accepted when no result is given,
  whatever the types of the two properties; and an error of any other shape is rejected
  at construction, by the TypeError "arguments not valid" or, for \<^verbatim>\<open>null\<close>, by the
  TypeError of the property read.
\<close>

theorem ReturnEventData_error_shape:
  "(ReturnEventData_new res err info = Inr d \<and> err \<noteq> JUndefined \<longrightarrow> hasCodeAndMessage err)
   \<and> (hasCodeAndMessage err \<longrightarrow>
        ReturnEventData_new JUndefined err info
          = Inr \<lparr>r_result = JUndefined, r_error = err, r_executionInfo = info\<rparr>)
   \<and> (err \<noteq> JUndefined \<and> \<not> hasCodeAndMessage err \<longrightarrow>
        ReturnEventData_new res err info = Inl ArgumentsNotValid
        \<or> ReturnEventData_new res err info = Inl CannotReadProperty)"
  by (cases err)
     (auto simp: ReturnEventData_defs Let_def split: sum.splits if_splits option.splits)

theorem ReturnEventData_error_shape_witness:
  "hasCodeAndMessage (JObject [(''code'', JNumber (- 32602)), (''message'', JString ''Invalid params'')])
   \<and> ReturnEventData_new JUndefined
        (JObject [(''code'', JNumber (- 32602)), (''message'', JString ''Invalid params'')]) JUndefined
       = Inr \<lparr>r_result = JUndefined,
              r_error = JObject [(''code'', JNumber (- 32602)), (''message'', JString ''Invalid params'')],
              r_executionInfo = JUndefined\<rparr>
   \<and> JObject [(''code'', JNumber 1)] \<noteq> JUndefined
   \<and> \<not> hasCodeAndMessage (JObject [(''code'', JNumber 1)])
   \<and> ReturnEventData_new JUndefined (JObject [(''code'', JNumber 1)]) JUndefined = Inl ArgumentsNotValid"
  using ReturnEventData_error_shape [of JUndefined
      "JObject [(''code'', JNumber (- 32602)), (''message'', JString ''Invalid params'')]" JUndefined
      "\<lparr>r_result = JUndefined,
        r_error = JObject [(''code'', JNumber (- 32602)), (''message'', JString ''Invalid params'')],
        r_executionInfo = JUndefined\<rparr>"]
    ReturnEventData_error_shape [of JUndefined "JObject [(''code'', JNumber 1)]" JUndefined]
  by (simp add: ReturnEventData_defs)

text \<open>
  Claim C4. \<^verbatim>\<open>CallEventData.matchesFilter(context)\<close> returns false if and only if a
  context filter was specified, a context object is supplied, and the object does not
  satisfy the filter according to \<^verbatim>\<open>ObjectMatcher.matchesFilter\<close>; in particular it
  returns true for a receiver that supplies no context object.
\<close>

theorem matchesFilter_false_iff:
  "(\<not> matchesFilter ObjectMatcher_matchesFilter d ctx)
     = (c_filter d \<noteq> JUndefined \<and> ctx \<noteq> JUndefined \<and> \<not> ObjectMatcher_matchesFilter ctx (c_filter d))
   \<and> matchesFilter ObjectMatcher_matchesFilter d JUndefined"
  by (simp add: matchesFilter_def)

text \<open>
  The constructor of \<^verbatim>\<open>CallEventData\<close> succeeds exactly for parameters that are
  \<^verbatim>\<open>undefined\<close>, \<^verbatim>\<open>null\<close>, an array or an object, together with a valid filter.
\<close>

lemma CallEventData_new_succeeds_iff:
  "(CallEventData_new isContextFilterValid p f = Inr \<lparr>c_parameters = p, c_filter = f\<rparr>)
     = ((p = JUndefined \<or> p = JNull \<or> isArray p \<or> (\<exists>kvs. p = JObject kvs)) \<and> isContextFilterValid f)"
  by (cases p) (auto simp: CallEventData_defs Let_def)

lemma CallEventData_new_fails:
  "CallEventData_new isContextFilterValid p f \<noteq> Inr \<lparr>c_parameters = p, c_filter = f\<rparr>
   \<Longrightarrow> CallEventData_new isContextFilterValid p f = Inl ArgumentsNotValid"
  by (simp add: CallEventData_defs Let_def split: if_splits)

text \<open>
  Claim C5 holds on every argument but \<^verbatim>\<open>null\<close>: \<^verbatim>\<open>typeof null\<close> is \<^verbatim>\<open>"object"\<close>, so
  the constructor accepts \<^verbatim>\<open>null\<close> parameters, which are neither \<^verbatim>\<open>undefined\<close> nor an
  array nor a by-name mapping object, whenever the absent filter is valid.
\<close>

theorem CallEventData_new_accepts_null:
  "isContextFilterValid JUndefined \<Longrightarrow>
   CallEventData_new isContextFilterValid JNull JUndefined
     = Inr \<lparr>c_parameters = JNull, c_filter = JUndefined\<rparr>"
  by (simp add: CallEventData_defs Let_def)

theorem CallEventData_new_accepts_null_witness:
  "(JUndefined = JUndefined \<or> typeof JUndefined = ''object'')
   \<and> CallEventData_new (\<lambda>f. f = JUndefined \<or> typeof f = ''object'') JNull JUndefined
       = Inr \<lparr>c_parameters = JNull, c_filter = JUndefined\<rparr>"
  using CallEventData_new_accepts_null [of "\<lambda>f. f = JUndefined \<or> typeof f = ''object''"]
  by simp

lemma CallEventData_createFrom_toJsonObject:
  "CallEventData_new isContextFilterValid p f = Inr c \<Longrightarrow>
   CallEventData_createFrom isContextFilterValid (CallEventData_toJsonObject c) = Inr c"
  by (auto simp: CallEventData_defs Let_def split: if_splits)

lemma ReturnEventData_createFrom_toJsonObject:
  "ReturnEventData_new res err info = Inr r \<Longrightarrow>
   ReturnEventData_createFrom (ReturnEventData_toJsonObject r) = Inr r"
  by (auto simp: ReturnEventData_defs Let_def split: if_splits sum.splits)

text \<open>
  Claim C7. For every successfully constructed \<^verbatim>\<open>CallEventData\<close> and
  \<^verbatim>\<open>ReturnEventData\<close> \<open>e\<close>, \<^verbatim>\<open>createFrom(e.toJsonObject())\<close> succeeds and its
  \<^verbatim>\<open>toJsonObject()\<close> equals \<^verbatim>\<open>e.toJsonObject()\<close>.
\<close>

theorem createFrom_toJsonObject_roundtrip:
  "(CallEventData_new isContextFilterValid p f = Inr c \<longrightarrow>
      (\<exists>c'. CallEventData_createFrom isContextFilterValid (CallEventData_toJsonObject c) = Inr c'
            \<and> CallEventData_toJsonObject c' = CallEventData_toJsonObject c))
   \<and> (ReturnEventData_new res err info = Inr r \<longrightarrow>
      (\<exists>r'. ReturnEventData_createFrom (ReturnEventData_toJsonObject r) = Inr r'
            \<and> ReturnEventData_toJsonObject r' = ReturnEventData_toJsonObject r))"
  using CallEventData_createFrom_toJsonObject [of isContextFilterValid p f c]
    ReturnEventData_createFrom_toJsonObject [of res err info r]
  by blast

theorem createFrom_toJsonObject_roundtrip_witness:
  "CallEventData_new (\<lambda>f. f = JUndefined) (JArray [JNumber 42, JNumber 43]) JUndefined
     = Inr \<lparr>c_parameters = JArray [JNumber 42, JNumber 43], c_filter = JUndefined\<rparr>
   \<and> ReturnEventData_new (JNumber 85) JUndefined (JObject [(''duration'', JNumber 4712)])
     = Inr \<lparr>r_result = JNumber 85, r_error = JUndefined,
            r_executionInfo = JObject [(''duration'', JNumber 4712)]\<rparr>
   \<and> (\<exists>c'. CallEventData_createFrom (\<lambda>f. f = JUndefined)
              (CallEventData_toJsonObject \<lparr>c_parameters = JArray [JNumber 42, JNumber 43], c_filter = JUndefined\<rparr>) = Inr c'
            \<and> CallEventData_toJsonObject c'
              = CallEventData_toJsonObject \<lparr>c_parameters = JArray [JNumber 42, JNumber 43], c_filter = JUndefined\<rparr>)
   \<and> (\<exists>r'. ReturnEventData_createFrom
              (ReturnEventData_toJsonObject \<lparr>r_result = JNumber 85, r_error = JUndefined,
                 r_executionInfo = JObject [(''duration'', JNumber 4712)]\<rparr>) = Inr r'
            \<and> ReturnEventData_toJsonObject r'
              = ReturnEventData_toJsonObject \<lparr>r_result = JNumber 85, r_error = JUndefined,
                 r_executionInfo = JObject [(''duration'', JNumber 4712)]\<rparr>)"
proof -
  have call: "CallEventData_new (\<lambda>f. f = JUndefined) (JArray [JNumber 42, JNumber 43]) JUndefined
     = Inr \<lparr>c_parameters = JArray [JNumber 42, JNumber 43], c_filter = JUndefined\<rparr>"
    by (simp add: CallEventData_defs)
  have ret: "ReturnEventData_new (JNumber 85) JUndefined (JObject [(''duration'', JNumber 4712)])
     = Inr \<lparr>r_result = JNumber 85, r_error = JUndefined,
            r_executionInfo = JObject [(''duration'', JNumber 4712)]\<rparr>"
    by (simp add: ReturnEventData_defs)
  from call ret createFrom_toJsonObject_roundtrip
      [of "\<lambda>f. f = JUndefined" "JArray [JNumber 42, JNumber 43]" JUndefined
          "\<lparr>c_parameters = JArray [JNumber 42, JNumber 43], c_filter = JUndefined\<rparr>"
          "JNumber 85" JUndefined "JObject [(''duration'', JNumber 4712)]"
          "\<lparr>r_result = JNumber 85, r_error = JUndefined,
            r_executionInfo = JObject [(''duration'', JNumber 4712)]\<rparr>"]
  show ?thesis by blast
qed

section \<open>Lifecycle invariant\<close>

lemma callbacks_of_append: "callbacks_of c (xs @ ys) = callbacks_of c xs @ callbacks_of c ys"
  by (induction c xs rule: callbacks_of.induct) auto

lemma life_run_append:
  "life_run p (xs @ ys) = (case life_run p xs of None \<Rightarrow> None | Some q \<Rightarrow> life_run q ys)"
  by (induction xs arbitrary: p) (auto split: option.splits)

lemma ctrl_ids_Nil: "ctrl_ids [] = []"
  by (simp add: ctrl_ids_def)

lemma ctrl_ids_Cons: "ctrl_ids ((n, c, t) # m) = c # ctrl_ids m"
  by (simp add: ctrl_ids_def)

lemma callbacks_of_forEach:
  "distinct (ctrl_ids m) \<Longrightarrow>
   callbacks_of c (map (\<lambda>(name, ctrl, ty). Controller_call ctrl cb) m)
     = (if c \<in> set (ctrl_ids m) then [cb] else [])"
proof (induction m)
  case Nil
  show ?case by (simp add: ctrl_ids_Nil)
next
  case (Cons a m)
  obtain n c' t' where a: "a = (n, c', t')" by (cases a) auto
  from Cons show ?case unfolding a by (auto simp: ctrl_ids_Cons)
qed

lemma callbacks_of_dispatch_self:
  "callbacks_of c (dispatchOperatingState s c') = (if c' = c then callbacks_of c (dispatchOperatingState s c) else [])"
  by (cases s) simp_all

lemma callbacks_of_dispatch:
  "distinct (ctrl_ids m) \<Longrightarrow>
   callbacks_of c (concat (map (\<lambda>(name, ctrl, ty). dispatchOperatingState s ctrl) m))
     = (if c \<in> set (ctrl_ids m) then callbacks_of c (dispatchOperatingState s c) else [])"
proof (induction m)
  case Nil
  show ?case by (simp add: ctrl_ids_Nil)
next
  case (Cons a m)
  obtain n c' t' where a: "a = (n, c', t')" by (cases a) auto
  from Cons have IH: "callbacks_of c (concat (map (\<lambda>(name, ctrl, ty). dispatchOperatingState s ctrl) m))
     = (if c \<in> set (ctrl_ids m) then callbacks_of c (dispatchOperatingState s c) else [])"
    and nin: "c' \<notin> set (ctrl_ids m)"
    unfolding a by (simp_all add: ctrl_ids_Cons)
  show ?case unfolding a
    using nin callbacks_of_dispatch_self [of c s c']
    by (auto simp: ctrl_ids_Cons callbacks_of_append IH)
qed

lemma ctrl_ids_update:
  "set (ctrl_ids (AList.update k (c, t) m)) \<subseteq> insert c (set (ctrl_ids m))"
proof (induction m)
  case Nil
  show ?case by (simp add: ctrl_ids_Nil ctrl_ids_Cons)
next
  case (Cons a m)
  obtain n c' t' where a: "a = (n, c', t')" by (cases a) auto
  from Cons show ?case unfolding a by (auto simp: ctrl_ids_Cons)
qed

lemma ctrl_ids_update_mem:
  "c \<in> set (ctrl_ids (AList.update k (c, t) m))"
proof (induction m)
  case Nil
  show ?case by (simp add: ctrl_ids_Nil ctrl_ids_Cons)
next
  case (Cons a m)
  obtain n c' t' where a: "a = (n, c', t')" by (cases a) auto
  from Cons show ?case unfolding a by (simp add: ctrl_ids_Cons)
qed

lemma distinct_ctrl_ids_update:
  "distinct (ctrl_ids m) \<Longrightarrow> c \<notin> set (ctrl_ids m) \<Longrightarrow> distinct (ctrl_ids (AList.update k (c, t) m))"
proof (induction m)
  case Nil
  then show ?case by (simp add: ctrl_ids_Nil ctrl_ids_Cons)
next
  case (Cons a m)
  obtain n c' t' where a: "a = (n, c', t')" by (cases a) auto
  have sub: "set (ctrl_ids (AList.update k (c, t) m)) \<subseteq> insert c (set (ctrl_ids m))"
    by (rule ctrl_ids_update)
  from Cons.prems have d: "distinct (ctrl_ids m)" and n1: "c' \<notin> set (ctrl_ids m)"
    and n2: "c \<notin> set (ctrl_ids m)" and ne: "c \<noteq> c'"
    unfolding a by (auto simp: ctrl_ids_Cons)
  from Cons.IH [OF d n2] have IH: "distinct (ctrl_ids (AList.update k (c, t) m))" .
  show ?case
  proof (cases "n = k")
    case True
    then show ?thesis unfolding a using d n2 by (simp add: ctrl_ids_Cons)
  next
    case False
    then show ?thesis unfolding a using IH sub n1 ne by (auto simp: ctrl_ids_Cons)
  qed
qed


lemma in_ctrl_ids_lt:
  "ctrl_inv P w \<Longrightarrow> controllers w = Some m \<Longrightarrow> c \<in> set (ctrl_ids m) \<Longrightarrow> c < instances w"
  by (simp add: ctrl_inv_def)

lemma ctrl_inv_append:
  assumes inv: "ctrl_inv P w"
    and m: "controllers w = Some m"
    and fields: "controllers w' = controllers w" "instances w' = instances w" "calls w' = calls w @ ys"
    and inside: "\<And>c p. c \<in> set (ctrl_ids m) \<Longrightarrow> p \<in> P \<Longrightarrow>
        \<exists>q \<in> Q. life_run p (callbacks_of c ys) = Some q"
    and outside: "\<And>c. c \<notin> set (ctrl_ids m) \<Longrightarrow> callbacks_of c ys = []"
  shows "ctrl_inv Q w'"
proof -
  have ph: "phase_of c w' = (case phase_of c w of None \<Rightarrow> None | Some r \<Rightarrow> life_run r (callbacks_of c ys))" for c
    by (simp add: phase_of_def fields callbacks_of_append life_run_append)
  have d: "distinct (ctrl_ids m)" and lt: "\<And>c. c \<in> set (ctrl_ids m) \<Longrightarrow> c < instances w"
    and pin: "\<And>c. c \<in> set (ctrl_ids m) \<Longrightarrow> \<exists>p \<in> P. phase_of c w = Some p"
    and fresh: "\<And>c. instances w \<le> c \<Longrightarrow> callbacks_of c (calls w) = []"
    and ok: "\<And>c. phase_of c w \<noteq> None"
    using inv m by (auto simp: ctrl_inv_def)
  have 1: "\<exists>q \<in> Q. phase_of c w' = Some q" if "c \<in> set (ctrl_ids m)" for c
  proof -
    from pin [OF that] obtain p where p: "p \<in> P" "phase_of c w = Some p" by auto
    from inside [OF that p(1)] obtain q where "q \<in> Q" "life_run p (callbacks_of c ys) = Some q"
      by auto
    with p show ?thesis by (auto simp: ph)
  qed
  have 2: "callbacks_of c (calls w') = []" if "instances w' \<le> c" for c
  proof -
    from that have "c \<notin> set (ctrl_ids m)" using lt [of c] by (auto simp: fields)
    with that show ?thesis by (simp add: fields callbacks_of_append outside fresh)
  qed
  have 3: "phase_of c w' \<noteq> None" for c
  proof (cases "c \<in> set (ctrl_ids m)")
    case True
    from 1 [OF True] show ?thesis by auto
  next
    case False
    then show ?thesis using ok [of c] by (auto simp: ph outside)
  qed
  show ?thesis
    unfolding ctrl_inv_def using d lt 1 2 3 by (auto simp: fields m)
qed

lemma ctrl_inv_append_None:
  assumes inv: "ctrl_inv P w"
    and m: "controllers w = None"
    and fields: "controllers w' = None" "instances w' = instances w" "calls w' = calls w @ ys"
    and outside: "\<And>c. callbacks_of c ys = []"
  shows "ctrl_inv Q w'"
proof -
  have ph: "phase_of c w' = phase_of c w" for c
    by (simp add: phase_of_def fields callbacks_of_append outside)
  show ?thesis
    using inv unfolding ctrl_inv_def by (simp add: fields ph callbacks_of_append outside)
qed

lemma ctrl_inv_release:
  assumes inv: "ctrl_inv P w"
    and fields: "controllers w' = None" "instances w' = instances w" "calls w' = calls w"
  shows "ctrl_inv Q w'"
proof -
  have ph: "phase_of c w' = phase_of c w" for c
    by (simp add: phase_of_def fields)
  show ?thesis
    using inv unfolding ctrl_inv_def by (simp add: fields ph)
qed

lemma ctrl_inv_mono:
  assumes inv: "ctrl_inv P w" and sub: "P \<subseteq> Q"
  shows "ctrl_inv Q w"
proof (cases "controllers w")
  case None
  show ?thesis by (rule ctrl_inv_release [OF inv]) (simp_all add: None)
next
  case (Some m)
  show ?thesis
  proof (rule ctrl_inv_append [OF inv Some, where ys = "[]"])
    show "\<exists>q \<in> Q. life_run p (callbacks_of c []) = Some q" if "p \<in> P" for c p
      using that sub by auto
  qed simp_all
qed

lemma ctrl_inv_add:
  assumes inv: "ctrl_inv P w"
    and m: "controllers w = Some m"
    and fields: "controllers w' = Some (AList.update n (instances w, ty) m)"
      "instances w' = Suc (instances w)" "calls w' = calls w @ ys"
    and ys: "\<And>c. callbacks_of c ys = (if c = instances w then cbs else [])"
    and cbs: "life_run Created cbs = Some p'" "p' \<in> P"
  shows "ctrl_inv P w'"
proof -
  let ?i = "instances w"
  have d: "distinct (ctrl_ids m)" and lt: "\<And>c. c \<in> set (ctrl_ids m) \<Longrightarrow> c < ?i"
    and pin: "\<And>c. c \<in> set (ctrl_ids m) \<Longrightarrow> \<exists>p \<in> P. phase_of c w = Some p"
    and fresh: "\<And>c. ?i \<le> c \<Longrightarrow> callbacks_of c (calls w) = []"
    and ok: "\<And>c. phase_of c w \<noteq> None"
    using inv m by (auto simp: ctrl_inv_def)
  have nin: "?i \<notin> set (ctrl_ids m)" using lt [of ?i] by auto
  have d': "distinct (ctrl_ids (AList.update n (?i, ty) m))"
    by (rule distinct_ctrl_ids_update [OF d nin])
  have sub: "set (ctrl_ids (AList.update n (?i, ty) m)) \<subseteq> insert ?i (set (ctrl_ids m))"
    by (rule ctrl_ids_update)
  have new: "phase_of ?i w' = Some p'"
    using fresh [of ?i] cbs(1) by (simp add: phase_of_def fields callbacks_of_append ys)
  have old: "phase_of c w' = phase_of c w" if "c \<noteq> ?i" for c
    using that by (simp add: phase_of_def fields callbacks_of_append ys)
  have 1: "c < instances w' \<and> (\<exists>p \<in> P. phase_of c w' = Some p)"
    if "c \<in> set (ctrl_ids (AList.update n (?i, ty) m))" for c
  proof (cases "c = ?i")
    case True
    then show ?thesis using new cbs(2) by (auto simp: fields)
  next
    case False
    with that sub have "c \<in> set (ctrl_ids m)" by auto
    then show ?thesis using lt [of c] pin [of c] old [OF False] by (auto simp: fields)
  qed
  have 2: "callbacks_of c (calls w') = []" if "instances w' \<le> c" for c
    using that fresh [of c] by (simp add: fields callbacks_of_append ys)
  have 3: "phase_of c w' \<noteq> None" for c
    using new old [of c] ok [of c] by (cases "c = ?i") auto
  show ?thesis
    unfolding ctrl_inv_def using d' 1 2 3 by (auto simp: fields)
qed

lemma notify_fields:
  "isShutdown (notify s w) = isShutdown w"
  "subscription (notify s w) = subscription w"
  "controllers (notify s w) = controllers w"
  "operatingState (notify s w) = operatingState w"
  "instances (notify s w) = instances w"
  by (simp_all add: notify_def split: option.splits)

lemma callbacks_of_dispatch_notification:
  "callbacks_of c (dispatchOperatingState s c) = notification s"
  by (cases s) simp_all

lemma notify_ctrl_inv:
  assumes inv: "ctrl_inv P w" and sub: "subscription w"
    and nxt: "\<And>p. p \<in> P \<Longrightarrow> \<exists>q \<in> Q. life_run p (notification s) = Some q"
  shows "ctrl_inv Q (notify s w)"
proof (cases "controllers w")
  case None
  show ?thesis
    by (rule ctrl_inv_release [OF inv]) (simp_all add: notify_def None)
next
  case (Some m)
  have d: "distinct (ctrl_ids m)" using inv Some by (simp add: ctrl_inv_def)
  show ?thesis
  proof (rule ctrl_inv_append [OF inv Some])
    show "calls (notify s w)
        = calls w @ concat (map (\<lambda>(name, ctrl, ty). dispatchOperatingState s ctrl) m)"
      by (simp add: notify_def sub Some)
    show "\<exists>q \<in> Q. life_run p
        (callbacks_of c (concat (map (\<lambda>(name, ctrl, ty). dispatchOperatingState s ctrl) m)))
        = Some q"
      if "c \<in> set (ctrl_ids m)" "p \<in> P" for c p
      using that nxt [of p]
      by (simp add: callbacks_of_dispatch [OF d] callbacks_of_dispatch_notification)
    show "callbacks_of c (concat (map (\<lambda>(name, ctrl, ty). dispatchOperatingState s ctrl) m)) = []"
      if "c \<notin> set (ctrl_ids m)" for c
      using that by (simp add: callbacks_of_dispatch [OF d])
  qed (simp_all add: notify_fields)
qed

lemma ctrl_inv_operatingState_update:
  "ctrl_inv P (w\<lparr>operatingState := s\<rparr>) = ctrl_inv P w"
  by (simp add: ctrl_inv_def phase_of_def)

lemma comManager_enter_fields:
  "isShutdown (comManager_enter s w) = isShutdown w"
  "subscription (comManager_enter s w) = subscription w"
  "controllers (comManager_enter s w) = controllers w"
  "instances (comManager_enter s w) = instances w"
  "operatingState (comManager_enter s w) = s"
  by (simp_all add: comManager_enter_def notify_fields)

lemma phases_in_next:
  "comManager_next s0 s \<Longrightarrow> p \<in> phases_in s0 \<Longrightarrow>
   \<exists>q \<in> phases_in s. life_run p (notification s) = Some q"
  by (cases s0; cases s) auto

lemma comManager_enter_ctrl_inv:
  assumes inv: "ctrl_inv (phases_in (operatingState w)) w" and sub: "subscription w"
    and nxt: "comManager_next (operatingState w) s"
  shows "ctrl_inv (phases_in s) (comManager_enter s w)"
  unfolding comManager_enter_def
proof (rule notify_ctrl_inv)
  show "ctrl_inv (phases_in (operatingState w)) (w\<lparr>operatingState := s\<rparr>)"
    using inv by (simp add: ctrl_inv_operatingState_update)
  show "subscription (w\<lparr>operatingState := s\<rparr>)" using sub by simp
  show "\<exists>q \<in> phases_in s. life_run p (notification s) = Some q"
    if "p \<in> phases_in (operatingState w)" for p
    using nxt that by (rule phases_in_next)
qed

lemma comManager_start_fields:
  "isShutdown (comManager_start w) = isShutdown w"
  "subscription (comManager_start w) = subscription w"
  "controllers (comManager_start w) = controllers w"
  "instances (comManager_start w) = instances w"
  by (simp_all add: comManager_start_def comManager_enter_fields)

lemma comManager_start_ctrl_inv:
  assumes inv: "ctrl_inv (phases_in (operatingState w)) w" and sub: "subscription w"
  shows "ctrl_inv (phases_in (operatingState (comManager_start w))) (comManager_start w)"
proof (cases "operatingState w = Initial \<or> operatingState w = Stopped")
  case True
  then have "comManager_next (operatingState w) Starting" by auto
  from comManager_enter_ctrl_inv [OF inv sub this] True show ?thesis
    by (simp add: comManager_start_def comManager_enter_fields)
next
  case False
  then show ?thesis using inv by (simp add: comManager_start_def)
qed

lemma comManager_onDispose_fields:
  "isShutdown (comManager_onDispose w) = isShutdown w"
  "subscription (comManager_onDispose w) = subscription w"
  "controllers (comManager_onDispose w) = controllers w"
  "instances (comManager_onDispose w) = instances w"
  by (simp_all add: comManager_onDispose_def comManager_enter_fields)

lemma comManager_onDispose_ctrl_inv:
  assumes inv: "ctrl_inv (phases_in (operatingState w)) w" and sub: "subscription w"
  shows "ctrl_inv {Resolved, Running} (comManager_onDispose w)"
proof (cases "operatingState w = Starting \<or> operatingState w = Started")
  case True
  let ?w1 = "comManager_enter Stopping w"
  from True have "comManager_next (operatingState w) Stopping" by auto
  from comManager_enter_ctrl_inv [OF inv sub this]
  have 1: "ctrl_inv (phases_in (operatingState ?w1)) ?w1"
    by (simp add: comManager_enter_fields)
  have 2: "subscription ?w1" using sub by (simp add: comManager_enter_fields)
  have 3: "comManager_next (operatingState ?w1) Stopped" by (simp add: comManager_enter_fields)
  from comManager_enter_ctrl_inv [OF 1 2 3] True show ?thesis
    by (simp add: comManager_onDispose_def)
next
  case False
  have "phases_in (operatingState w) \<subseteq> {Resolved, Running}"
    by (cases "operatingState w") auto
  from ctrl_inv_mono [OF inv this] False show ?thesis
    by (simp add: comManager_onDispose_def)
qed

lemma ctrl_inv_marker:
  assumes "ctrl_inv P w" and "\<And>c. callbacks_of c ys = []"
  shows "ctrl_inv P (w\<lparr>calls := calls w @ ys\<rparr>)"
proof (cases "controllers w")
  case None
  show ?thesis
    by (rule ctrl_inv_append_None [OF assms(1) None, where ys = ys]) (simp_all add: None assms(2))
next
  case (Some m)
  show ?thesis
    by (rule ctrl_inv_append [OF assms(1) Some, where ys = ys]) (simp_all add: assms(2))
qed

lemma forEachController_fields:
  "isShutdown (forEachController cb w) = isShutdown w"
  "subscription (forEachController cb w) = subscription w"
  "controllers (forEachController cb w) = controllers w"
  "operatingState (forEachController cb w) = operatingState w"
  "instances (forEachController cb w) = instances w"
  by (simp_all add: forEachController_def split: option.splits)

lemma forEachController_ctrl_inv:
  assumes inv: "ctrl_inv P w" and st: "\<And>p. p \<in> P \<Longrightarrow> \<exists>q \<in> Q. life_step p cb = Some q"
  shows "ctrl_inv Q (forEachController cb w)"
proof (cases "controllers w")
  case None
  have "forEachController cb w = w" by (simp add: forEachController_def None)
  moreover have "ctrl_inv Q w"
    by (rule ctrl_inv_release [OF inv]) (simp_all add: None)
  ultimately show ?thesis by simp
next
  case (Some m)
  have d: "distinct (ctrl_ids m)" using inv Some by (simp add: ctrl_inv_def)
  show ?thesis
  proof (rule ctrl_inv_append [OF inv Some])
    show "calls (forEachController cb w)
        = calls w @ map (\<lambda>(name, ctrl, ty). Controller_call ctrl cb) m"
      by (simp add: forEachController_def Some)
    show "\<exists>q \<in> Q. life_run p (callbacks_of c (map (\<lambda>(name, ctrl, ty). Controller_call ctrl cb) m))
        = Some q"
      if "c \<in> set (ctrl_ids m)" "p \<in> P" for c p
      using that st [of p] by (auto simp: callbacks_of_forEach [OF d])
    show "callbacks_of c (map (\<lambda>(name, ctrl, ty). Controller_call ctrl cb) m) = []"
      if "c \<notin> set (ctrl_ids m)" for c
      using that by (simp add: callbacks_of_forEach [OF d])
  qed (simp_all add: forEachController_fields)
qed

lemma resolveController_fields:
  "isShutdown (fst (resolveController n t w)) = isShutdown w"
  "subscription (fst (resolveController n t w)) = subscription w"
  "operatingState (fst (resolveController n t w)) = operatingState w"
  "(controllers (fst (resolveController n t w)) = None) = (controllers w = None)"
  by (simp_all add: resolveController_def Let_def split: option.splits)

lemma callbacks_of_single:
  "callbacks_of c [Controller_call i cb] = (if c = i then [cb] else [])"
  by simp

lemma resolveController_ctrl_inv:
  assumes inv: "ctrl_inv {Inited} w" and m: "controllers w = Some m"
  shows "ctrl_inv {Inited} (fst (resolveController n t w))"
proof (cases "t = None \<or> n = []")
  case True
  then show ?thesis using inv by (auto simp: resolveController_def split: option.splits)
next
  case False
  then obtain ty where t: "t = Some ty" and n: "n \<noteq> []" by auto
  show ?thesis
  proof (rule ctrl_inv_add [OF inv m, where cbs = "[onInit]"
        and ys = "[Controller_call (instances w) onInit]"])
    show "controllers (fst (resolveController n t w)) = Some (AList.update n (instances w, ty) m)"
      by (simp add: resolveController_def t n m Let_def)
    show "instances (fst (resolveController n t w)) = Suc (instances w)"
      by (simp add: resolveController_def t n Let_def)
    show "calls (fst (resolveController n t w)) = calls w @ [Controller_call (instances w) onInit]"
      by (simp add: resolveController_def t n Let_def)
  qed auto
qed


lemma resolveControllers_inv:
  "ctrl_inv {Inited} w \<Longrightarrow> controllers w \<noteq> None \<Longrightarrow>
   ctrl_inv {Inited} (resolveControllers comps w)
   \<and> controllers (resolveControllers comps w) \<noteq> None
   \<and> isShutdown (resolveControllers comps w) = isShutdown w
   \<and> subscription (resolveControllers comps w) = subscription w
   \<and> operatingState (resolveControllers comps w) = operatingState w"
proof (induction comps arbitrary: w)
  case Nil
  then show ?case by simp
next
  case (Cons a comps)
  obtain n t where a: "a = (n, t)" by (cases a) auto
  from Cons.prems obtain m where m: "controllers w = Some m" by auto
  let ?w = "fst (resolveController n t w)"
  have 1: "ctrl_inv {Inited} ?w" by (rule resolveController_ctrl_inv [OF Cons.prems(1) m])
  have 2: "controllers ?w \<noteq> None" using m by (simp add: resolveController_fields)
  from Cons.IH [OF 1 2] show ?case
    by (simp add: a resolveController_fields)
qed



lemma new_Container_inv: "ctrl_inv {Inited} new_Container"
  by (simp add: ctrl_inv_def new_Container_def phase_of_def ctrl_ids_Nil)



lemma Container_resolve_inv:
  assumes "Container_resolve components config = Inr w"
  shows "container_inv w"
proof -
  from assms obtain cfg where cfg: "config = Some cfg"
    by (cases config) (auto simp: Container_resolve_def)
  define w1 where "w1 = resolveControllers components new_Container"
  define w2 where "w2 = forEachController onContainerResolved w1"
  define w3 where "w3 = notify (operatingState w2) (w2\<lparr>subscription := True\<rparr>)"
  define w4 where "w4 = w3\<lparr>calls := calls w3 @ [ComManager_start]\<rparr>"
  have r1: "ctrl_inv {Inited} w1 \<and> controllers w1 \<noteq> None \<and> isShutdown w1 = False
      \<and> subscription w1 = False \<and> operatingState w1 = Initial"
    using resolveControllers_inv [OF new_Container_inv, of components]
    by (simp add: w1_def new_Container_def)
  have i2: "ctrl_inv {Resolved} w2"
    unfolding w2_def by (rule forEachController_ctrl_inv [where P = "{Inited}"]) (simp_all add: r1)
  have f2: "controllers w2 \<noteq> None" "isShutdown w2 = False" "operatingState w2 = Initial"
    using r1 by (simp_all add: w2_def forEachController_fields)
  have "ctrl_inv {Resolved} (w2\<lparr>subscription := True\<rparr>)"
    using i2 by (simp add: ctrl_inv_def phase_of_def)
  then have i3: "ctrl_inv {Resolved} w3"
    unfolding w3_def by (rule notify_ctrl_inv) (simp_all add: f2)
  have f3: "controllers w3 \<noteq> None" "isShutdown w3 = False" "subscription w3 = True"
    "operatingState w3 = Initial"
    using f2 by (simp_all add: w3_def notify_fields)
  have c3: "container_inv w3"
    using i3 f3 by (simp add: container_inv_def)
  have "ctrl_inv {Resolved} w4"
    unfolding w4_def by (rule ctrl_inv_marker [OF i3]) simp
  then have i4: "ctrl_inv (phases_in (operatingState w4)) w4"
    using f3 by (simp add: w4_def)
  have f4: "subscription w4" using f3 by (simp add: w4_def)
  have c4: "container_inv (comManager_start w4)"
    using comManager_start_ctrl_inv [OF i4 f4] f3
    by (simp add: container_inv_def comManager_start_fields w4_def)
  have "w = (if shouldAutoStart cfg then comManager_start w4 else w3)"
    using assms
    by (simp add: Container_resolve_def cfg Let_def w1_def w2_def w3_def w4_def split: if_splits)
  then show ?thesis using c3 c4 by simp
qed


lemma registerController_inv:
  assumes inv: "container_inv w"
  shows "container_inv (fst (registerController n t w))"
proof (cases "isShutdown w \<or> t = None \<or> n = []")
  case True
  then show ?thesis using inv
    by (auto simp: registerController_def resolveController_def split: option.splits)
next
  case False
  then obtain ty where t: "t = Some ty" and n: "n \<noteq> []" and ns: "\<not> isShutdown w" by auto
  from inv ns obtain m where m: "controllers w = Some m"
    by (auto simp: container_inv_def)
  from inv have ci: "ctrl_inv (phases_in (operatingState w)) w" by (simp add: container_inv_def)
  let ?i = "instances w"
  let ?ys = "[Controller_call ?i onInit, Controller_call ?i onContainerResolved]
      @ (if operatingState w = Started \<or> operatingState w = Starting
         then [Controller_call ?i onCommunicationManagerStarting] else [])"
  let ?cbs = "[onInit, onContainerResolved]
      @ (if operatingState w = Started \<or> operatingState w = Starting
         then [onCommunicationManagerStarting] else [])"
  let ?p = "if operatingState w = Started \<or> operatingState w = Starting then Running else Resolved"
  let ?w' = "fst (registerController n t w)"
  have "ctrl_inv (phases_in (operatingState w)) ?w'"
  proof (rule ctrl_inv_add [OF ci m, where cbs = ?cbs and ys = ?ys and p' = ?p])
    show "controllers ?w' = Some (AList.update n (?i, ty) m)"
      by (simp add: registerController_def resolveController_def t n m ns Let_def)
    show "instances ?w' = Suc ?i"
      by (simp add: registerController_def resolveController_def t n m ns Let_def)
    show "calls ?w' = calls w @ ?ys"
      by (simp add: registerController_def resolveController_def t n m ns Let_def)
    show "?p \<in> phases_in (operatingState w)"
      by (cases "operatingState w") auto
  qed auto
  moreover have "isShutdown ?w' = isShutdown w" "subscription ?w' = subscription w"
    "controllers ?w' \<noteq> None" "operatingState ?w' = operatingState w"
    by (simp_all add: registerController_def resolveController_def t n m ns Let_def)
  ultimately show ?thesis using inv ns by (simp add: container_inv_def)
qed

lemma shutdown_inv:
  assumes inv: "container_inv w"
  shows "container_inv (shutdown w)"
proof (cases "isShutdown w")
  case True
  then show ?thesis using inv by (simp add: shutdown_def)
next
  case False
  from inv have ci: "ctrl_inv (phases_in (operatingState w)) w" and sub: "subscription w"
    using False by (simp_all add: container_inv_def)
  define w0 where "w0 = w\<lparr>isShutdown := True, calls := calls w @ [ComManager_onDispose]\<rparr>"
  define w1 where "w1 = comManager_onDispose w0"
  define w2 where "w2 = forEachController onDispose w1"
  have "ctrl_inv (phases_in (operatingState w)) (w\<lparr>isShutdown := True\<rparr>)"
    using ci by (simp add: ctrl_inv_def phase_of_def)
  then have "ctrl_inv (phases_in (operatingState w))
      ((w\<lparr>isShutdown := True\<rparr>)\<lparr>calls := calls (w\<lparr>isShutdown := True\<rparr>) @ [ComManager_onDispose]\<rparr>)"
    by (rule ctrl_inv_marker) simp
  then have "ctrl_inv (phases_in (operatingState w0)) w0"
    by (simp add: w0_def)
  moreover have "subscription w0" using sub by (simp add: w0_def)
  ultimately have "ctrl_inv {Resolved, Running} w1"
    unfolding w1_def by (rule comManager_onDispose_ctrl_inv)
  then have "ctrl_inv {Disposed} w2"
    unfolding w2_def by (rule forEachController_ctrl_inv) auto
  then have "ctrl_inv (phases_in (operatingState w2))
      (w2\<lparr>subscription := False, controllers := None\<rparr>)"
    by (rule ctrl_inv_release) simp_all
  moreover have "isShutdown w2"
    by (simp add: w2_def w1_def w0_def forEachController_fields comManager_onDispose_fields)
  moreover have "shutdown w = w2\<lparr>subscription := False, controllers := None\<rparr>"
    using False by (simp add: shutdown_def releaseComponents_def Let_def w0_def w1_def w2_def)
  ultimately show ?thesis by (simp add: container_inv_def)
qed

lemma step_inv: "container_inv w \<Longrightarrow> step w e = Some w' \<Longrightarrow> container_inv w'"
proof (cases e)
  case (RegisterController n t)
  assume "container_inv w" "step w e = Some w'"
  then show ?thesis using registerController_inv [of w n t] by (simp add: RegisterController)
next
  case Shutdown
  assume "container_inv w" "step w e = Some w'"
  then show ?thesis using shutdown_inv [of w] by (simp add: Shutdown)
next
  case (ComManagerEnters s)
  assume inv: "container_inv w" and st: "step w e = Some w'"
  from st have ns: "\<not> isShutdown w" and nx: "comManager_next (operatingState w) s"
    and w': "w' = comManager_enter s w"
    by (auto simp: ComManagerEnters split: if_splits)
  from inv ns have ci: "ctrl_inv (phases_in (operatingState w)) w" and sub: "subscription w"
    by (simp_all add: container_inv_def)
  from comManager_enter_ctrl_inv [OF ci sub nx] inv show ?thesis
    by (simp add: w' container_inv_def comManager_enter_fields)
qed

lemma run_inv: "container_inv w \<Longrightarrow> run w evs = Some w' \<Longrightarrow> container_inv w'"
proof (induction evs arbitrary: w)
  case Nil
  then show ?case by simp
next
  case (Cons e evs)
  then show ?case by (auto split: option.splits dest: step_inv)
qed

lemma resolve_run_inv: "resolve_run components config evs = Some w \<Longrightarrow> container_inv w"
  by (auto simp: resolve_run_def split: sum.splits dest: Container_resolve_inv run_inv)



lemma getController_after_registerController:
  "registerController name ty w = (w', Some ctrl) \<Longrightarrow> controllers w \<noteq> None \<Longrightarrow> getController w' name = Inr (Some ctrl)"
  by (auto simp: registerController_def resolveController_def getController_def Let_def update_conv'
      split: if_splits option.splits prod.splits)

section \<open>Properties of the container\<close>


text \<open>
  Claim C10, amended. In a container that has not been shut down,
  \<^verbatim>\<open>getController(name)\<close> returns the controller instance registered under the name
  when there is one (in particular the instance that \<^verbatim>\<open>registerController\<close> has just
  returned), and throws a TypeError when there is none; after shutdown it returns
  \<^verbatim>\<open>undefined\<close> for every name.
\<close>

theorem getController_registered:
  "resolve_run components config evs = Some w \<Longrightarrow>
     (\<not> isShutdown w \<longrightarrow>
        (\<exists>m. controllers w = Some m
           \<and> (\<forall>ctrl ty. map_of m name = Some (ctrl, ty) \<longrightarrow> getController w name = Inr (Some ctrl))
           \<and> (map_of m name = None \<longrightarrow> getController w name = Inl CannotReadProperty)))
   \<and> (isShutdown w \<longrightarrow> controllers w = None \<and> getController w name = Inr None)
   \<and> (\<forall>ty ctrl w'. registerController name ty w = (w', Some ctrl) \<longrightarrow>
          getController w' name = Inr (Some ctrl))"
proof -
  assume "resolve_run components config evs = Some w"
  then have inv: "container_inv w" by (rule resolve_run_inv)
  then have sh: "isShutdown w \<longleftrightarrow> controllers w = None" by (simp add: container_inv_def)
  have 1: "\<exists>m. controllers w = Some m
           \<and> (\<forall>ctrl ty. map_of m name = Some (ctrl, ty) \<longrightarrow> getController w name = Inr (Some ctrl))
           \<and> (map_of m name = None \<longrightarrow> getController w name = Inl CannotReadProperty)"
    if "\<not> isShutdown w"
    using that sh by (auto simp: getController_def)
  have 2: "controllers w = None \<and> getController w name = Inr None" if "isShutdown w"
    using that sh by (simp add: getController_def)
  have 3: "getController w' name = Inr (Some ctrl)"
    if "registerController name ty w = (w', Some ctrl)" for ty ctrl w'
  proof -
    from that have "\<not> isShutdown w" by (auto simp: registerController_def split: if_splits)
    with sh have "controllers w \<noteq> None" by simp
    with that show ?thesis by (rule getController_after_registerController)
  qed
  show ?thesis using 1 2 3 by blast
qed


lemmas Container_defs =
  resolve_run_def Container_resolve_def new_Container_def resolveController_def
  forEachController_def notify_def comManager_start_def comManager_enter_def
  comManager_onDispose_def registerController_def shutdown_def releaseComponents_def
  getController_def Let_def

lemma example_run:
  "resolve_run example_components (Some \<lparr>shouldAutoStart = True\<rparr>) example_events
     = Some example_container"
  by (simp add: Container_defs example_components_def example_events_def example_container_def)

lemma example_run_shutdown:
  "resolve_run example_components (Some \<lparr>shouldAutoStart = True\<rparr>) (example_events @ [Shutdown])
     = Some (shutdown example_container)"
  by (simp add: Container_defs example_components_def example_events_def example_container_def)





text \<open>
  Claim C10 fails after shutdown: no controller is registered any more, and the guard
  \<^verbatim>\<open>this._controllers &&\<close> makes \<^verbatim>\<open>getController\<close> return \<^verbatim>\<open>undefined\<close> instead
  of indexing an absent map entry.
\<close>

theorem getController_after_shutdown_counterexample:
  "resolve_run [(''MockObjectController'', Some ''MockObjectController'')]
      (Some \<lparr>shouldAutoStart = True\<rparr>) [Shutdown]
     = Some \<lparr>controllers = None, isShutdown = True, subscription = False,
             operatingState = Stopped, instances = 1,
             calls =
               [Controller_call 0 onInit, Controller_call 0 onContainerResolved,
                ComManager_start, Controller_call 0 onCommunicationManagerStarting,
                ComManager_onDispose,
                Controller_call 0 onCommunicationManagerStopping,
                Controller_call 0 onDispose]\<rparr>
   \<and> getController
        \<lparr>controllers = None, isShutdown = True, subscription = False,
         operatingState = Stopped, instances = 1,
         calls =
           [Controller_call 0 onInit, Controller_call 0 onContainerResolved,
            ComManager_start, Controller_call 0 onCommunicationManagerStarting,
            ComManager_onDispose,
            Controller_call 0 onCommunicationManagerStopping,
            Controller_call 0 onDispose]\<rparr>
        ''MockObjectController''
       = Inr None"
  by (simp add: Container_defs)

theorem getController_registered_witness:
  "resolve_run example_components (Some \<lparr>shouldAutoStart = True\<rparr>) example_events
     = Some example_container
   \<and> \<not> isShutdown example_container
   \<and> getController example_container ''MockObjectController'' = Inr (Some 2)
   \<and> getController example_container ''MockIoController'' = Inl CannotReadProperty
   \<and> resolve_run example_components (Some \<lparr>shouldAutoStart = True\<rparr>) (example_events @ [Shutdown])
       = Some (shutdown example_container)
   \<and> isShutdown (shutdown example_container)
   \<and> getController (shutdown example_container) ''MockObjectController'' = Inr None
   \<and> snd (registerController ''MockIoController'' (Some ''MockIoController'') example_container) = Some 3
   \<and> getController (fst (registerController ''MockIoController'' (Some ''MockIoController'') example_container))
        ''MockIoController'' = Inr (Some 3)"
proof -
  have ns: "\<not> isShutdown example_container"
    by (simp add: example_container_def)
  have sh: "isShutdown (shutdown example_container)"
    by (simp add: example_container_def shutdown_def releaseComponents_def Let_def
        forEachController_fields comManager_onDispose_fields)
  have reg: "snd (registerController ''MockIoController'' (Some ''MockIoController'') example_container) = Some 3"
    by (simp add: example_container_def registerController_def resolveController_def Let_def)
  have a: "getController example_container ''MockObjectController'' = Inr (Some 2)"
    using getController_registered [OF example_run, of "''MockObjectController''"] ns
    by (auto simp: example_container_def)
  have b: "getController example_container ''MockIoController'' = Inl CannotReadProperty"
    using getController_registered [OF example_run, of "''MockIoController''"] ns
    by (auto simp: example_container_def)
  have c: "getController (shutdown example_container) ''MockObjectController'' = Inr None"
    using getController_registered [OF example_run_shutdown, of "''MockObjectController''"] sh
    by blast
  have d: "getController (fst (registerController ''MockIoController'' (Some ''MockIoController'') example_container))
        ''MockIoController'' = Inr (Some 3)"
    using getController_registered [OF example_run, of "''MockIoController''"] reg
    by (metis prod.collapse)
  show ?thesis
    using example_run example_run_shutdown ns sh reg a b c d by blast
qed

section \<open>Properties of names and topics\<close>

lemma isValidEventTypeFilter_iff:
  "isValidEventTypeFilter s
     = (s \<noteq> [] \<and> set s \<inter> {CHR 0x00, CHR ''#'', CHR ''+'', CHR ''/''} = {})"
  by (auto simp: isValidEventTypeFilter_def list_all_iff is_safe_char_def unsafe_chars_def)

text \<open>
  Claim C6. Constructing a \<^verbatim>\<open>CallEvent\<close> throws if and only if its operation name is
  empty or contains one of NUL, \<^verbatim>\<open>#\<close>, \<^verbatim>\<open>+\<close>, \<^verbatim>\<open>/\<close>, and succeeds for every other
  name; constructing a \<^verbatim>\<open>ChannelEvent\<close> does the same on its channel identifier.
\<close>

theorem event_name_validation:
  "(CallEvent_new eventSource operation callData = Inl NotAValidOperationName)
     = (operation = [] \<or> set operation \<inter> {CHR 0x00, CHR ''#'', CHR ''+'', CHR ''/''} \<noteq> {})
   \<and> (CallEvent_new eventSource operation callData
        = Inr \<lparr>ce_eventSource = eventSource, ce_eventData = callData, ce_operation = operation\<rparr>)
     = (operation \<noteq> [] \<and> set operation \<inter> {CHR 0x00, CHR ''#'', CHR ''+'', CHR ''/''} = {})
   \<and> (ChannelEvent_new eventSource channelId channelData = Inl NotAValidChannelId)
     = (channelId = [] \<or> set channelId \<inter> {CHR 0x00, CHR ''#'', CHR ''+'', CHR ''/''} \<noteq> {})
   \<and> (ChannelEvent_new eventSource channelId channelData
        = Inr \<lparr>ch_eventSource = eventSource, ch_eventData = channelData, ch_channelId = channelId\<rparr>)
     = (channelId \<noteq> [] \<and> set channelId \<inter> {CHR 0x00, CHR ''#'', CHR ''+'', CHR ''/''} = {})"
  by (simp add: CallEvent_new_def ChannelEvent_new_def isValidEventTypeFilter_iff)

text \<open>The two channel identifiers of the test suite, and an operation name of it.\<close>

theorem event_name_validation_witness:
  "ChannelEvent_new JNull ''/foo/+/'' JNull = Inl NotAValidChannelId
   \<and> ChannelEvent_new JNull ''foo_bar-baz'' JNull
       = Inr \<lparr>ch_eventSource = JNull, ch_eventData = JNull, ch_channelId = ''foo_bar-baz''\<rparr>
   \<and> CallEvent_new JNull ''coaty.test.add'' \<lparr>c_parameters = JArray [], c_filter = JUndefined\<rparr>
       = Inr \<lparr>ce_eventSource = JNull,
              ce_eventData = \<lparr>c_parameters = JArray [], c_filter = JUndefined\<rparr>,
              ce_operation = ''coaty.test.add''\<rparr>
   \<and> CallEvent_new JNull '''' \<lparr>c_parameters = JArray [], c_filter = JUndefined\<rparr>
       = Inl NotAValidOperationName"
  using event_name_validation [of JNull "''coaty.test.add''"
      "\<lparr>c_parameters = JArray [], c_filter = JUndefined\<rparr>" "''/foo/+/''" JNull]
    event_name_validation [of JNull "''''"
      "\<lparr>c_parameters = JArray [], c_filter = JUndefined\<rparr>" "''foo_bar-baz''" JNull]
  by simp

lemma show_nat_lt10: "n < 10 \<Longrightarrow> show_nat n = [digit_char n]"
  by (subst show_nat.simps) simp

lemma show_nat_ge10: "10 \<le> n \<Longrightarrow> show_nat n = show_nat (n div 10) @ [digit_char (n mod 10)]"
  by (subst show_nat.simps) simp

lemma digit_char_0: "digit_char 0 = CHR ''0''"
  using char_of_char [of "CHR ''0''", where ?'a = nat] by (simp add: digit_char_def)

lemma digit_char_1: "digit_char (Suc 0) = CHR ''1''"
  using char_of_char [of "CHR ''1''", where ?'a = nat] by (simp add: digit_char_def)

lemma show_nat_0: "show_nat 0 = ''0''"
  by (simp add: show_nat_lt10 digit_char_0)

lemma show_nat_1: "show_nat (Suc 0) = ''1''"
  by (simp add: show_nat_lt10 digit_char_1)

text \<open>
  Claim C8. A sender that has built no topic yet gets the counter 0 when an associated
  user is present and the counter 1 otherwise: the message token of its first topic is
  the sender's identifier followed by \<^verbatim>\<open>_0\<close>, respectively \<^verbatim>\<open>_1\<close>. A sender whose
  counter is \<open>n\<close> gets the token with \<open>n\<close>, and every topic built increments the
  counter of its sender.
\<close>

theorem first_messageToken_counter:
  "(counters sourceId = None \<longrightarrow>
      messageToken (fst (createByLevels counters (Some u) sourceId evType flt token v isReadable))
        = sourceId @ ''_0''
      \<and> messageToken (fst (createByLevels counters None sourceId evType flt token v isReadable))
        = sourceId @ ''_1'')
   \<and> (counters sourceId = Some n \<longrightarrow>
      messageToken (fst (createByLevels counters user sourceId evType flt token v isReadable))
        = sourceId @ ''_'' @ show_nat n)
   \<and> snd (createByLevels counters user sourceId evType flt token v isReadable) sourceId
        = Some (Suc (nextCounter counters user sourceId))"
  by (simp add: createByLevels_def nextCounter_def Let_def show_nat_0 show_nat_1)

lemma of_char_digit_char: "d < 10 \<Longrightarrow> (of_char (digit_char d) :: nat) = 48 + d"
  by (simp add: digit_char_def)

lemma is_digit_digit_char: "d < 10 \<Longrightarrow> is_digit (digit_char d)"
  by (simp add: is_digit_def of_char_digit_char)

lemma show_nat_digits: "list_all is_digit (show_nat n)"
proof (induction n rule: show_nat.induct)
  case (1 n)
  show ?case
  proof (cases "n < 10")
    case True
    then show ?thesis by (simp add: show_nat_lt10 is_digit_digit_char)
  next
    case False
    with 1 show ?thesis by (simp add: show_nat_ge10 is_digit_digit_char)
  qed
qed

lemma show_nat_nonempty: "show_nat n \<noteq> []"
  by (cases "n < 10") (simp_all add: show_nat_lt10 show_nat_ge10)

lemma foldl_show_nat: "foldl (\<lambda>a c. 10 * a + (of_char c - 48)) 0 (show_nat n) = n"
proof (induction n rule: show_nat.induct)
  case (1 n)
  show ?case
  proof (cases "n < 10")
    case True
    then show ?thesis by (simp add: show_nat_lt10 of_char_digit_char)
  next
    case False
    with 1 show ?thesis by (simp add: show_nat_ge10 of_char_digit_char)
  qed
qed

lemma parse_nat_show_nat: "parse_nat (show_nat n) = Some n"
  by (simp add: parse_nat_def show_nat_nonempty show_nat_digits foldl_show_nat)

lemma is_digit_safe: "is_digit c \<Longrightarrow> is_safe_char c"
  by (auto simp: is_digit_def is_safe_char_def unsafe_chars_def)

lemma is_safe_topic_char: "is_safe_char c \<Longrightarrow> is_topic_char c"
  by (simp add: is_safe_char_def unsafe_chars_def is_topic_char_def)

lemma is_safe_not_slash: "list_all is_safe_char s \<Longrightarrow> CHR ''/'' \<notin> set s"
  by (auto simp: list_all_iff is_safe_char_def unsafe_chars_def)

lemma safe_topic_chars: "list_all is_safe_char s \<Longrightarrow> list_all is_topic_char s"
  by (auto simp: list_all_iff is_safe_topic_char)

lemma show_nat_safe: "list_all is_safe_char (show_nat n)"
  using show_nat_digits [of n] by (auto simp: list_all_iff is_digit_safe)

lemma split_on_no_sep: "sep \<notin> set a \<Longrightarrow> split_on sep a = [a]"
  by (induction a) auto

lemma split_on_append: "sep \<notin> set a \<Longrightarrow> split_on sep (a @ sep # rest) = a # split_on sep rest"
  by (induction a) auto

lemma split_on_levels:
  assumes "CHR ''/'' \<notin> set a" "CHR ''/'' \<notin> set b" "CHR ''/'' \<notin> set c"
    "CHR ''/'' \<notin> set d" "CHR ''/'' \<notin> set e" "CHR ''/'' \<notin> set f"
  shows "split_on CHR ''/''
      (''/'' @ a @ ''/'' @ b @ ''/'' @ c @ ''/'' @ d @ ''/'' @ e @ ''/'' @ f @ ''/'')
     = [[], a, b, c, d, e, f, []]"
  using assms by (simp add: split_on_append)

lemma eventName_safe: "list_all is_safe_char (eventName e)"
  by (cases e) (simp_all add: is_safe_char_def unsafe_chars_def)

lemma eventName_no_colon: "CHR '':'' \<notin> set (eventName e)"
  by (cases e) simp_all

lemma eventName_nonempty: "eventName e \<noteq> []"
  by (cases e) simp_all

lemma eventOfName_eventName: "eventOfName (eventName e) = Some e"
  by (cases e) (simp_all add: eventOfName_def allEventTypes_def)

lemma takeWhile_no_colon: "CHR '':'' \<notin> set s \<Longrightarrow> takeWhile (\<lambda>c. c \<noteq> CHR '':'') s = s"
  by (induction s) auto

lemma eventOfName_getEventTypeName:
  "eventOfName (takeWhile (\<lambda>c. c \<noteq> CHR '':'') (getEventTypeName e flt)) = Some e"
proof (cases flt)
  case None
  then show ?thesis
    by (simp add: getEventTypeName_def takeWhile_no_colon eventName_no_colon eventOfName_eventName)
next
  case (Some f)
  have "takeWhile (\<lambda>c. c \<noteq> CHR '':'') (eventName e @ CHR '':'' # f) = eventName e"
    using eventName_no_colon [of e] by (simp add: takeWhile_tail takeWhile_no_colon)
  then show ?thesis
    by (simp add: getEventTypeName_def Some eventOfName_eventName)
qed

lemma getEventTypeName_safe:
  "(\<And>f. flt = Some f \<Longrightarrow> list_all is_safe_char f) \<Longrightarrow>
   list_all is_safe_char (getEventTypeName e flt)"
  by (cases flt) (simp_all add: getEventTypeName_def eventName_safe is_safe_char_def unsafe_chars_def)

lemma getEventTypeName_nonempty: "getEventTypeName e flt \<noteq> []"
  by (cases flt) (simp_all add: getEventTypeName_def eventName_nonempty)

lemma sanitize_safe: "list_all is_safe_char (sanitize s)"
  by (induction s) (simp_all add: sanitize_def is_safe_char_def unsafe_chars_def)

lemma sanitize_id: "(sanitize s = s) = list_all is_safe_char s"
  by (induction s) (auto simp: sanitize_def is_safe_char_def unsafe_chars_def)

lemma length_sanitize: "length (sanitize s) = length s"
  by (simp add: sanitize_def)

lemma getTopicLevelId_safe:
  "list_all is_safe_char (u_objectId u) \<Longrightarrow> list_all is_safe_char (getTopicLevelId u r)"
  by (simp add: getTopicLevelId_def sanitize_safe is_safe_char_def unsafe_chars_def)

text \<open>
  Decoding the name of a topic gives the topic back when the identifiers in it are
  non-empty and free of NUL, \<^verbatim>\<open>#\<close>, \<^verbatim>\<open>+\<close>, \<^verbatim>\<open>/\<close>, and the level of the user is not
  the placeholder of an absent user.
\<close>

lemma createByName_getTopicName:
  assumes src: "isValidEventTypeFilter sourceId"
    and usr: "\<And>u. associatedUser = Some u \<Longrightarrow>
        list_all is_safe_char (u_objectId u) \<and> getTopicLevelId u isReadable \<noteq> []
        \<and> getTopicLevelId u isReadable \<noteq> ''-''"
    and flt: "\<And>f. eventTypeFilter = Some f \<Longrightarrow> list_all is_safe_char f"
  shows "createByName (getTopicName (fst (createByLevels counters associatedUser sourceId evType
            eventTypeFilter token v isReadable)))
     = Inr (fst (createByLevels counters associatedUser sourceId evType eventTypeFilter token v isReadable))"
proof -
  define n where "n = nextCounter counters associatedUser sourceId"
  define lv where "lv = show_nat v"
  define le where "le = getEventTypeName evType eventTypeFilter"
  define lu where "lu = (case associatedUser of None \<Rightarrow> ''-'' | Some u \<Rightarrow> getTopicLevelId u isReadable)"
  define lt where "lt = sourceId @ ''_'' @ show_nat n"
  define t where "t = fst (createByLevels counters associatedUser sourceId evType eventTypeFilter token v isReadable)"
  have t_eq: "t = \<lparr>associatedUserId = map_option (\<lambda>u. getTopicLevelId u isReadable) associatedUser,
           sourceObjectId = sourceId, eventType = evType, eventTypeName = le,
           messageToken = lt, version = v\<rparr>"
    by (simp add: t_def createByLevels_def Let_def n_def le_def lt_def)
  have name: "getTopicName t
      = ''/'' @ ''coaty'' @ ''/'' @ lv @ ''/'' @ le @ ''/'' @ lu @ ''/'' @ sourceId @ ''/'' @ lt @ ''/''"
    by (cases associatedUser)
       (simp_all add: t_eq getTopicName_def PROTOCOL_NAME_def EMPTY_ASSOCIATED_USER_ID_def lv_def lu_def)
  have s_src: "list_all is_safe_char sourceId" and ne_src: "sourceId \<noteq> []"
    using src by (simp_all add: isValidEventTypeFilter_def)
  have s_v: "list_all is_safe_char lv" by (simp add: lv_def show_nat_safe)
  have s_e: "list_all is_safe_char le" unfolding le_def by (rule getEventTypeName_safe) (rule flt)
  have s_u: "list_all is_safe_char lu"
    using usr by (cases associatedUser) (simp_all add: lu_def getTopicLevelId_safe is_safe_char_def unsafe_chars_def)
  have s_t: "list_all is_safe_char lt"
    using s_src by (simp add: lt_def show_nat_safe is_safe_char_def unsafe_chars_def)
  have s_p: "list_all is_safe_char ''coaty''" by (simp add: is_safe_char_def unsafe_chars_def)
  have split: "split_on CHR ''/'' (getTopicName t) = [[], ''coaty'', lv, le, lu, sourceId, lt, []]"
    unfolding name
    by (rule split_on_levels) (simp_all add: is_safe_not_slash s_v s_e s_u s_src s_t)
  have chars: "list_all is_topic_char (getTopicName t)"
    unfolding name
    using safe_topic_chars [OF s_v] safe_topic_chars [OF s_e] safe_topic_chars [OF s_u]
      safe_topic_chars [OF s_src] safe_topic_chars [OF s_t]
    by (simp add: is_topic_char_def)
  have ne_u: "lu \<noteq> []" using usr by (cases associatedUser) (simp_all add: lu_def)
  have ne_t: "lt \<noteq> []" by (simp add: lt_def)
  have ne_e: "le \<noteq> []" by (simp add: le_def getEventTypeName_nonempty)
  have user: "(if lu = ''-'' then None else Some lu)
      = map_option (\<lambda>u. getTopicLevelId u isReadable) associatedUser"
    using usr by (cases associatedUser) (simp_all add: lu_def)
  have ev: "eventOfName (takeWhile (\<lambda>c. c \<noteq> CHR '':'') le) = Some evType"
    by (simp add: le_def eventOfName_getEventTypeName)
  have "createByName (getTopicName t)
      = Inr \<lparr>associatedUserId = (if lu = ''-'' then None else Some lu),
             sourceObjectId = sourceId, eventType = evType, eventTypeName = le,
             messageToken = lt, version = v\<rparr>"
    using chars ne_u ne_t ne_e ne_src
    by (simp add: createByName_def split PROTOCOL_NAME_def EMPTY_ASSOCIATED_USER_ID_def
        lv_def parse_nat_show_nat ev)
  then have "createByName (getTopicName t) = Inr t"
    by (simp only: user t_eq)
  then show ?thesis by (simp only: t_def)
qed

lemma is_hex_safe: "is_hex c \<Longrightarrow> is_safe_char c"
  by (auto simp: is_hex_def is_digit_safe) (simp_all add: is_safe_char_def unsafe_chars_def)

lemma isUuid_chars:
  assumes "isUuid s" "c \<in> set s"
  shows "c = CHR ''-'' \<or> is_hex c"
proof -
  from assms(2) obtain i where i: "i < length s" "s ! i = c"
    by (auto simp: in_set_conv_nth)
  then have "(i, c) \<in> set (enumerate 0 s)"
    by (simp add: in_set_enumerate_eq)
  with assms(1) show ?thesis
    by (auto simp: isUuid_def list_all_iff split: if_splits)
qed

lemma isUuid_safe:
  assumes "isUuid s"
  shows "list_all is_safe_char s"
proof -
  have "is_safe_char c" if "c \<in> set s" for c
  proof -
    from isUuid_chars [OF assms that] show ?thesis
    proof
      assume "c = CHR ''-''"
      then show ?thesis by (simp add: is_safe_char_def unsafe_chars_def)
    next
      assume "is_hex c"
      then show ?thesis by (rule is_hex_safe)
    qed
  qed
  then show ?thesis by (simp add: list_all_iff)
qed

lemma isUuid_length: "isUuid s \<Longrightarrow> length s = 36"
  by (simp add: isUuid_def)

lemma isUuid_valid: "isUuid s \<Longrightarrow> isValidEventTypeFilter s"
  using isUuid_length [of s] by (auto simp: isValidEventTypeFilter_def isUuid_safe)

lemma getTopicLevelId_length:
  "isUuid (u_objectId u) \<Longrightarrow> 36 \<le> length (getTopicLevelId u r)"
  by (simp add: getTopicLevelId_def isUuid_length)

lemma uuidFromLevel_getTopicLevelId:
  "isUuid (u_objectId u) \<Longrightarrow> uuidFromLevel (getTopicLevelId u r) = Some (u_objectId u)"
  by (simp add: uuidFromLevel_def getTopicLevelId_def isUuid_length Let_def)

text \<open>
  Claim C1. For a topic built by \<^verbatim>\<open>createByLevels\<close> from an optional associated user, a
  sender identifier, an event type, an optional event-type filter, a message token and a
  version, in readable or non-readable mode, \<^verbatim>\<open>createByName(getTopicName())\<close> yields
  the same topic, so its \<open>associatedUserId\<close>, \<open>sourceObjectId\<close>, \<open>eventType\<close>,
  \<open>eventTypeName\<close>, \<open>messageToken\<close> and \<open>version\<close> are those of the original. The
  identifiers are UUIDs and the filter is a valid event-type filter, as the data model of
  the specification has them. The user level of the original is the normalized one: in
  non-readable mode the identifier of the user, in readable mode the sanitized name, an
  underscore and the identifier, which is the unsanitized name with the identifier if and
  only if the name contains only safe characters; in both modes \<^verbatim>\<open>uuidFromLevel\<close>
  recovers the identifier of the user from it.
\<close>

theorem topic_roundtrip:
  assumes "isUuid sourceId"
    and "\<forall>u. associatedUser = Some u \<longrightarrow> isUuid (u_objectId u)"
    and "\<forall>f. eventTypeFilter = Some f \<longrightarrow> isValidEventTypeFilter f"
  shows "createByName (getTopicName (fst (createByLevels counters associatedUser sourceId evType
             eventTypeFilter token v isReadable)))
      = Inr (fst (createByLevels counters associatedUser sourceId evType eventTypeFilter token v
               isReadable))
    \<and> (\<forall>u. associatedUser = Some u \<longrightarrow>
          associatedUserId (fst (createByLevels counters associatedUser sourceId evType
              eventTypeFilter token v False)) = Some (u_objectId u)
          \<and> associatedUserId (fst (createByLevels counters associatedUser sourceId evType
              eventTypeFilter token v True)) = Some (sanitize (u_name u) @ ''_'' @ u_objectId u)
          \<and> (sanitize (u_name u) @ ''_'' @ u_objectId u = u_name u @ ''_'' @ u_objectId u)
              = list_all is_safe_char (u_name u)
          \<and> uuidFromLevel (getTopicLevelId u isReadable) = Some (u_objectId u))"
proof -
  have 1: "createByName (getTopicName (fst (createByLevels counters associatedUser sourceId evType
             eventTypeFilter token v isReadable)))
      = Inr (fst (createByLevels counters associatedUser sourceId evType eventTypeFilter token v
               isReadable))"
  proof (rule createByName_getTopicName)
    show "isValidEventTypeFilter sourceId" using assms(1) by (rule isUuid_valid)
  next
    fix u assume u: "associatedUser = Some u"
    with assms(2) have uu: "isUuid (u_objectId u)" by simp
    from getTopicLevelId_length [OF uu, of isReadable]
    have "getTopicLevelId u isReadable \<noteq> [] \<and> getTopicLevelId u isReadable \<noteq> ''-''"
      by auto
    with uu show "list_all is_safe_char (u_objectId u) \<and> getTopicLevelId u isReadable \<noteq> []
        \<and> getTopicLevelId u isReadable \<noteq> ''-''"
      by (simp add: isUuid_safe)
  next
    fix f assume "eventTypeFilter = Some f"
    with assms(3) show "list_all is_safe_char f" by (simp add: isValidEventTypeFilter_def)
  qed
  have 2: "associatedUserId (fst (createByLevels counters associatedUser sourceId evType
              eventTypeFilter token v False)) = Some (u_objectId u)
          \<and> associatedUserId (fst (createByLevels counters associatedUser sourceId evType
              eventTypeFilter token v True)) = Some (sanitize (u_name u) @ ''_'' @ u_objectId u)
          \<and> (sanitize (u_name u) @ ''_'' @ u_objectId u = u_name u @ ''_'' @ u_objectId u)
              = list_all is_safe_char (u_name u)
          \<and> uuidFromLevel (getTopicLevelId u isReadable) = Some (u_objectId u)"
    if u: "associatedUser = Some u" for u
  proof -
    from u assms(2) have uu: "isUuid (u_objectId u)" by simp
    show ?thesis
      using uuidFromLevel_getTopicLevelId [OF uu, of isReadable]
      by (simp add: u createByLevels_def Let_def getTopicLevelId_def sanitize_id length_sanitize)
  qed
  show ?thesis using 1 2 by blast
qed

lemma test_senderId_isUuid: "isUuid test_senderId"
  by (simp add: test_senderId_def isUuid_def is_hex_def is_digit_def)

lemma test_associatedUser_isUuid: "isUuid (u_objectId test_associatedUser)"
  by (simp add: test_associatedUser_def isUuid_def is_hex_def is_digit_def)

lemma test_topic:
  "fst (createByLevels Map.empty (Some test_associatedUser) test_senderId Advertise
          (Some ''CoatyObject'') test_messageToken 1 True)
     = \<lparr>associatedUserId = Some ''User___HHO__0ea293e5-f8be-4a5d-886b-0e231e8234b2'',
        sourceObjectId = ''3d34eb53-2536-4134-b0cd-8c406b94bb80'',
        eventType = Advertise,
        eventTypeName = ''Advertise:CoatyObject'',
        messageToken = ''3d34eb53-2536-4134-b0cd-8c406b94bb80_0'',
        version = 1\<rparr>"
  by (simp add: createByLevels_def nextCounter_def Let_def getTopicLevelId_def sanitize_def
      is_safe_char_def unsafe_chars_def getEventTypeName_def show_nat_0
      test_associatedUser_def test_senderId_def)

theorem topic_roundtrip_witness:
  "isUuid test_senderId
   \<and> isUuid (u_objectId test_associatedUser)
   \<and> isValidEventTypeFilter ''CoatyObject''
   \<and> createByName (getTopicName (fst (createByLevels Map.empty (Some test_associatedUser)
          test_senderId Advertise (Some ''CoatyObject'') test_messageToken 1 True)))
       = Inr \<lparr>associatedUserId = Some ''User___HHO__0ea293e5-f8be-4a5d-886b-0e231e8234b2'',
              sourceObjectId = ''3d34eb53-2536-4134-b0cd-8c406b94bb80'',
              eventType = Advertise,
              eventTypeName = ''Advertise:CoatyObject'',
              messageToken = ''3d34eb53-2536-4134-b0cd-8c406b94bb80_0'',
              version = 1\<rparr>
   \<and> \<not> list_all is_safe_char (u_name test_associatedUser)
   \<and> uuidFromLevel ''User___HHO__0ea293e5-f8be-4a5d-886b-0e231e8234b2''
       = Some ''0ea293e5-f8be-4a5d-886b-0e231e8234b2''"
proof -
  have f: "isValidEventTypeFilter ''CoatyObject''"
    by (simp add: isValidEventTypeFilter_def is_safe_char_def unsafe_chars_def)
  have n: "\<not> list_all is_safe_char (u_name test_associatedUser)"
    by (simp add: test_associatedUser_def is_safe_char_def unsafe_chars_def)
  have l: "getTopicLevelId test_associatedUser True
      = ''User___HHO__0ea293e5-f8be-4a5d-886b-0e231e8234b2''"
    by (simp add: getTopicLevelId_def sanitize_def is_safe_char_def unsafe_chars_def
        test_associatedUser_def)
  have i: "u_objectId test_associatedUser = ''0ea293e5-f8be-4a5d-886b-0e231e8234b2''"
    by (simp add: test_associatedUser_def)
  from topic_roundtrip [of test_senderId "Some test_associatedUser" "Some ''CoatyObject''"
      Map.empty Advertise test_messageToken 1 True]
    test_senderId_isUuid test_associatedUser_isUuid f
  have "createByName (getTopicName (fst (createByLevels Map.empty (Some test_associatedUser)
          test_senderId Advertise (Some ''CoatyObject'') test_messageToken 1 True)))
       = Inr (fst (createByLevels Map.empty (Some test_associatedUser)
          test_senderId Advertise (Some ''CoatyObject'') test_messageToken 1 True))
     \<and> uuidFromLevel (getTopicLevelId test_associatedUser True) = Some (u_objectId test_associatedUser)"
    by simp
  then have "createByName (getTopicName (fst (createByLevels Map.empty (Some test_associatedUser)
          test_senderId Advertise (Some ''CoatyObject'') test_messageToken 1 True)))
       = Inr \<lparr>associatedUserId = Some ''User___HHO__0ea293e5-f8be-4a5d-886b-0e231e8234b2'',
              sourceObjectId = ''3d34eb53-2536-4134-b0cd-8c406b94bb80'',
              eventType = Advertise,
              eventTypeName = ''Advertise:CoatyObject'',
              messageToken = ''3d34eb53-2536-4134-b0cd-8c406b94bb80_0'',
              version = 1\<rparr>
     \<and> uuidFromLevel ''User___HHO__0ea293e5-f8be-4a5d-886b-0e231e8234b2''
       = Some ''0ea293e5-f8be-4a5d-886b-0e231e8234b2''"
    by (simp only: test_topic l i)
  then show ?thesis
    using test_senderId_isUuid test_associatedUser_isUuid f n by blast
qed

theorem first_messageToken_counter_witness:
  "Map.empty test_senderId = None
   \<and> messageToken (fst (createByLevels Map.empty (Some test_associatedUser) test_senderId
        Advertise (Some ''CoatyObject'') test_messageToken 1 True))
       = test_senderId @ ''_0''
   \<and> snd (createByLevels Map.empty (Some test_associatedUser) test_senderId
        Advertise (Some ''CoatyObject'') test_messageToken 1 True) test_senderId = Some 1
   \<and> messageToken (fst (createByLevels
        (snd (createByLevels Map.empty (Some test_associatedUser) test_senderId
           Advertise (Some ''CoatyObject'') test_messageToken 1 True))
        None test_senderId Advertise (Some ''CoatyObject'') test_messageToken 1 True))
       = test_senderId @ ''_1''
   \<and> messageToken (fst (createByLevels Map.empty None test_senderId
        Advertise (Some ''CoatyObject'') test_messageToken 1 True))
       = test_senderId @ ''_1''"
proof -
  let ?c1 = "snd (createByLevels Map.empty (Some test_associatedUser) test_senderId
           Advertise (Some ''CoatyObject'') test_messageToken 1 True)"
  have e: "(Map.empty :: string \<rightharpoonup> nat) test_senderId = None" by simp
  have first: "messageToken (fst (createByLevels Map.empty (Some test_associatedUser) test_senderId
        Advertise (Some ''CoatyObject'') test_messageToken 1 True)) = test_senderId @ ''_0''"
    and firstNoUser: "messageToken (fst (createByLevels Map.empty None test_senderId
        Advertise (Some ''CoatyObject'') test_messageToken 1 True)) = test_senderId @ ''_1''"
    and c1: "?c1 test_senderId = Some 1"
    using first_messageToken_counter [of Map.empty test_senderId test_associatedUser Advertise
        "Some ''CoatyObject''" test_messageToken 1 True 0 "Some test_associatedUser"] e
    by (simp_all add: nextCounter_def)
  have second: "messageToken (fst (createByLevels ?c1 None test_senderId Advertise
        (Some ''CoatyObject'') test_messageToken 1 True)) = test_senderId @ ''_1''"
    using first_messageToken_counter [of ?c1 test_senderId test_associatedUser Advertise
        "Some ''CoatyObject''" test_messageToken 1 True 1 None] c1
    by (simp add: show_nat_1)
  show ?thesis using e first firstNoUser c1 second by simp
qed

text \<open>
  The test "throws on invalid topic structure format": the name of the topic without user,
  its hyphen removed, is rejected.
\<close>

lemma createByName_rejects_empty_user_level:
  "createByName
     ''/coaty/1/Advertise:CoatyObject//3d34eb53-2536-4134-b0cd-8c406b94bb80/3d34eb53-2536-4134-b0cd-8c406b94bb80_1/''
     = Inl InvalidTopic"
  by (simp add: createByName_def)

end
